theory Spec2Isabelle
  imports Main "HOL-Library.Extended_Nat"
begin

section \<open>JavaScript string primitives used by the analyzers\<close>

text \<open>
  Strings are lists of characters; a character stands for a UTF-16 code unit below U+0100,
  so the strings of the model are the JavaScript strings over the Latin-1 range. The
  functions below are the string methods the TypeScript sources call: \<^verbatim>\<open>startsWith\<close>,
  \<^verbatim>\<open>endsWith\<close>, \<^verbatim>\<open>includes\<close>, \<^verbatim>\<open>split\<close> on a one-character separator, \<^verbatim>\<open>trim\<close>,
  \<^verbatim>\<open>toLowerCase\<close> and \<^verbatim>\<open>parseInt(s, 10)\<close> on a run of decimal digits.
\<close>

definition startsWith :: "string \<Rightarrow> string \<Rightarrow> bool" where
  "startsWith s p = (take (length p) s = p)"

definition endsWith :: "string \<Rightarrow> string \<Rightarrow> bool" where
  "endsWith s p = startsWith (rev s) (rev p)"

fun includesStr :: "string \<Rightarrow> string \<Rightarrow> bool" where
  "includesStr [] p = (p = [])"
| "includesStr (c # cs) p = (startsWith (c # cs) p \<or> includesStr cs p)"

text \<open>\<^verbatim>\<open>s.split(c)\<close> for a single character \<open>c\<close>: never empty, \<^verbatim>\<open>''.split(c) = ['']\<close>.\<close>

fun split :: "string \<Rightarrow> char \<Rightarrow> string list" where
  "split [] c = [[]]"
| "split (x # xs) c =
     (if x = c then [] # split xs c
      else (case split xs c of [] \<Rightarrow> [[x]] | y # ys \<Rightarrow> (x # y) # ys))"

definition newline :: char where
  "newline = CHR 0x0A"

definition tab :: char where
  "tab = CHR 0x09"

text \<open>
  The white space and line terminators that \<^verbatim>\<open>trim\<close> removes, as far as they lie below
  U+0100: tab, line feed, vertical tab, form feed, carriage return, space and the
  no-break space.
\<close>

definition isWhiteSpace :: "char \<Rightarrow> bool" where
  "isWhiteSpace c =
     (c \<in> set [CHR '' '', CHR 0x09, CHR 0x0A, CHR 0x0B, CHR 0x0C, CHR 0x0D, CHR 0xA0])"

definition trim :: "string \<Rightarrow> string" where
  "trim s = rev (dropWhile isWhiteSpace (rev (dropWhile isWhiteSpace s)))"

text \<open>
  \<^verbatim>\<open>toLowerCase\<close> follows the Unicode case mapping. Below U+0100 the characters with a
  lower-case counterpart are the letters A to Z and the letters from U+00C0 to U+00DE
  except the multiplication sign U+00D7; the counterpart is 32 code points further on.
\<close>

definition toLowerCase_char :: "char \<Rightarrow> char" where
  "toLowerCase_char c =
     (if (0x41 \<le> (of_char c :: nat) \<and> (of_char c :: nat) \<le> 0x5A) \<or>
         (0xC0 \<le> (of_char c :: nat) \<and> (of_char c :: nat) \<le> 0xDE \<and> (of_char c :: nat) \<noteq> 0xD7)
      then char_of ((of_char c :: nat) + 0x20)
      else c)"

definition toLowerCase :: "string \<Rightarrow> string" where
  "toLowerCase s = map toLowerCase_char s"

definition isDigit :: "char \<Rightarrow> bool" where
  "isDigit c = (c \<in> set ''0123456789'')"

definition digitValue :: "char \<Rightarrow> nat" where
  "digitValue c =
     (case map_of (zip ''0123456789'' [0, 1, 2, 3, 4, 5, 6, 7, 8, 9]) c of
        None \<Rightarrow> 0 | Some d \<Rightarrow> d)"

section \<open>JavaScript numbers that hold line numbers\<close>

text \<open>
  A JavaScript number is a double. The line cursor of \<^verbatim>\<open>getChangedLines\<close> starts at 0, is
  set by \<^verbatim>\<open>parseInt\<close> of a digit run and is incremented, so its values are the non-negative
  integers that a double represents, and \<^verbatim>\<open>Infinity\<close>.
\<close>

datatype number = Finite nat | Infinity

text \<open>The number of binary digits of a natural number.\<close>

fun bitLength :: "nat \<Rightarrow> nat" where
  "bitLength n = (if n = 0 then 0 else Suc (bitLength (n div 2)))"

declare bitLength.simps [simp del]

text \<open>
  The number value of a non-negative integer. A double has a significand of 53 binary
  digits: an integer of at most 53 binary digits is its own number value; a longer one is
  rounded to the nearest multiple of the unit in the last place, a tie going to the even
  significand, and the result is \<^verbatim>\<open>Infinity\<close> when it has more than 1024 binary digits.
\<close>

definition toNumber :: "nat \<Rightarrow> number" where
  "toNumber n =
     (if bitLength n \<le> 53 then Finite n
      else
        (let ulp = 2 ^ (bitLength n - 53);
             q = n div ulp;
             r = n mod ulp;
             rounded = (if 2 * r < ulp \<or> (2 * r = ulp \<and> even q) then q else q + 1) * ulp
         in if bitLength rounded \<le> 1024 then Finite rounded else Infinity))"

text \<open>\<^verbatim>\<open>currentLine++\<close>: the sum is rounded to a number again.\<close>

definition increment :: "number \<Rightarrow> number" where
  "increment x = (case x of Finite n \<Rightarrow> toNumber (n + 1) | Infinity \<Rightarrow> Infinity)"

text \<open>
  \<^verbatim>\<open>parseInt(ds, 10)\<close> on a string of decimal digits, most significant first: the number
  value of the integer that the digits denote, as Node.js computes it.
\<close>

definition mathInt :: "string \<Rightarrow> nat" where
  "mathInt ds = foldl (\<lambda>acc c. 10 * acc + digitValue c) 0 ds"

definition parseInt :: "string \<Rightarrow> number" where
  "parseInt ds = toNumber (mathInt ds)"

section \<open>Number-to-string conversion and arrays\<close>

text \<open>
  Number-to-string conversion of a template literal, for a natural number: the decimal
  digits. It is applied to the start line of a syntax-tree node, which is a line of a file
  that was read and so stays far below \<^verbatim>\<open>10^21\<close>, where JavaScript changes to the exponent form.
\<close>

definition digitChar :: "nat \<Rightarrow> char" where
  "digitChar d = ''0123456789'' ! d"

function toString :: "nat \<Rightarrow> string" where
  "toString n = (if n < 10 then [digitChar n] else toString (n div 10) @ [digitChar (n mod 10)])"
  by pat_completeness auto
termination
  by (relation "measure id") auto

declare toString.simps [simp del]

text \<open>\<^verbatim>\<open>[...new Set(xs)]\<close>: the first occurrence of each element, in order.\<close>

definition uniq :: "'a list \<Rightarrow> 'a list" where
  "uniq xs = rev (remdups (rev xs))"

text \<open>\<^verbatim>\<open>xs.join(sep)\<close>.\<close>

fun join :: "string list \<Rightarrow> string \<Rightarrow> string" where
  "join [] sep = []"
| "join [x] sep = x"
| "join (x # y # ys) sep = x @ sep @ join (y # ys) sep"

text \<open>\<^verbatim>\<open>s || d\<close> for a string that may be undefined: undefined and the empty string are falsy.\<close>

definition orDefault :: "string option \<Rightarrow> string \<Rightarrow> string" where
  "orDefault s d = (case s of None \<Rightarrow> d | Some v \<Rightarrow> (if v = [] then d else v))"


section \<open>The source model and the environment\<close>

text \<open>
  The syntax tree comes from the ts-morph library. A node is modelled by what the
  analyzers read from it: its kind with the attributes that kind offers, its text, the
  lines of its start and end (\<^verbatim>\<open>getLineAndColumnAtPos(node.getStart()).line\<close> and the same for
  \<^verbatim>\<open>getEnd()\<close>), the initializer of a variable declaration and the parent.
  A function or method declaration carries \<^verbatim>\<open>getName()\<close>, the texts of its parameters, the text
  of its return type and \<^verbatim>\<open>isAsync()\<close>.
\<close>

datatype NodeKind =
    FunctionDeclaration "string option" "string list" string bool
  | VariableDeclaration string
  | ArrowFunction
  | MethodDeclaration string "string list" string bool
  | ClassDeclaration "string option"
  | InterfaceDeclaration string
  | OtherKind

datatype Node =
  Node (getKind: NodeKind) (getText: string) (getStartLine: nat) (getEndLine: nat)
       (getInitializer: "Node option") (getParent: "Node option")

record ImportDeclaration =
  getModuleSpecifierValue :: string
  getDefaultImport :: "string option"
  getNamedImports :: "string list"

text \<open>
  A source file: its path, text and import declarations, the top-level declarations with
  \<^verbatim>\<open>getName()\<close> and \<^verbatim>\<open>isExported()\<close> (a variable statement with the names of its declarations),
  whether there is a default export symbol, the node found at a character offset and the
  descendants in the order \<^verbatim>\<open>forEachDescendant\<close> visits them.
\<close>

record SourceFile =
  getFilePath :: string
  getFullText :: string
  getImportDeclarations :: "ImportDeclaration list"
  getFunctions :: "(string option \<times> bool) list"
  getClasses :: "(string option \<times> bool) list"
  getInterfaces :: "(string \<times> bool) list"
  getTypeAliases :: "(string \<times> bool) list"
  getVariableStatements :: "(bool \<times> string list) list"
  getDefaultExportSymbol :: bool
  getDescendantAtPos :: "nat \<Rightarrow> Node option"
  forEachDescendant :: "Node list"

datatype error =
    NotFound string
  | NotGitRepository
  | ExecError string
  | TypeError
  | FileNotFoundError string

text \<open>
  Everything the analyzers ask of the outside world: the file system, the ts-morph project
  (\<^verbatim>\<open>addSourceFileAtPath\<close> throws for a path it cannot read), the file listing of \<^verbatim>\<open>globby\<close> with
  the fixed patterns of \<^verbatim>\<open>analyzeDependents\<close>, Node's \<^verbatim>\<open>path\<close> module, and the two git commands
  (\<^verbatim>\<open>git diff --cached --name-status\<close> gives its output or fails with a message;
  \<^verbatim>\<open>git diff --cached -U0 -- file\<close> gives its output or fails).
\<close>

record env =
  rootPath :: string
  existsSync :: "string \<Rightarrow> bool"
  readFileSync :: "string \<Rightarrow> string option"
  addSourceFileAtPath :: "string \<Rightarrow> SourceFile option"
  globby :: "string list"
  path_isAbsolute :: "string \<Rightarrow> bool"
  path_join :: "string \<Rightarrow> string \<Rightarrow> string"
  path_relative :: "string \<Rightarrow> string \<Rightarrow> string"
  path_resolve :: "string \<Rightarrow> string \<Rightarrow> string"
  path_dirname :: "string \<Rightarrow> string"
  path_basename :: "string \<Rightarrow> string"
  path_extname :: "string \<Rightarrow> string"
  git_name_status :: "string + string"
  git_diff_U0 :: "string \<Rightarrow> string option"

section \<open>Version-control change extractor: \<^verbatim>\<open>GitDiffAnalyzer.getChangedLines\<close>\<close>

datatype ChangeType = add | delete | modify

record ChangedLine =
  lineNumber :: number
  cl_type :: ChangeType
  cl_content :: string

text \<open>
  The hunk-header pattern \<^verbatim>\<open>/^@@ -\d+(?:,\d+)? \+(\d+)(?:,(\d+))? @@/\<close>, as a parser.
  Every digit run is followed by a character that is not a digit, so the greedy run is
  the only way the expression can match. The result is capture group 1.
\<close>

definition stripPrefix :: "string \<Rightarrow> string \<Rightarrow> string option" where
  "stripPrefix p s = (if startsWith s p then Some (drop (length p) s) else None)"

text \<open>\<^verbatim>\<open>\d+\<close>: a non-empty run of digits and the rest of the input.\<close>

definition digits1 :: "string \<Rightarrow> (string \<times> string) option" where
  "digits1 s =
     (if takeWhile isDigit s = [] then None
      else Some (takeWhile isDigit s, dropWhile isDigit s))"

text \<open>\<^verbatim>\<open>(?:,\d+)?\<close>: skips a comma and a digit run when both are there.\<close>

definition optCount :: "string \<Rightarrow> string" where
  "optCount s =
     (case s of
        [] \<Rightarrow> s
      | c # r \<Rightarrow> (if c = CHR '','' then (case digits1 r of None \<Rightarrow> s | Some (_, r') \<Rightarrow> r') else s))"

definition hunkMatch :: "string \<Rightarrow> string option" where
  "hunkMatch line =
     (case stripPrefix ''@@ -'' line of
        None \<Rightarrow> None
      | Some r1 \<Rightarrow>
         (case digits1 r1 of
            None \<Rightarrow> None
          | Some (_, r2) \<Rightarrow>
             (case stripPrefix '' +'' (optCount r2) of
                None \<Rightarrow> None
              | Some r3 \<Rightarrow>
                 (case digits1 r3 of
                    None \<Rightarrow> None
                  | Some (newStart, r4) \<Rightarrow>
                     (if startsWith (optCount r4) '' @@'' then Some newStart else None)))))"

text \<open>
  One iteration of the \<^verbatim>\<open>for (const line of lines)\<close> loop: the state is
  \<^verbatim>\<open>currentLine\<close> and the \<^verbatim>\<open>changedLines\<close> array.
\<close>

definition diffStep :: "number \<times> ChangedLine list \<Rightarrow> string \<Rightarrow> number \<times> ChangedLine list" where
  "diffStep st line =
     (case st of (currentLine, changedLines) \<Rightarrow>
       (case hunkMatch line of
          Some newStart \<Rightarrow> (parseInt newStart, changedLines)
        | None \<Rightarrow>
           if startsWith line ''+'' \<and> \<not> startsWith line ''+++'' then
             (increment currentLine,
              changedLines @ [\<lparr>lineNumber = currentLine, cl_type = add, cl_content = drop 1 line\<rparr>])
           else if startsWith line ''-'' \<and> \<not> startsWith line ''---'' then
             (currentLine,
              changedLines @ [\<lparr>lineNumber = currentLine, cl_type = delete, cl_content = drop 1 line\<rparr>])
           else if startsWith line '' '' then (increment currentLine, changedLines)
           else (currentLine, changedLines)))"

definition parseDiff :: "string \<Rightarrow> ChangedLine list" where
  "parseDiff stdout = snd (foldl diffStep (Finite 0, []) (split stdout newline))"

text \<open>A failing git command is caught and gives no changed lines.\<close>

definition getChangedLines :: "env \<Rightarrow> string \<Rightarrow> ChangedLine list" where
  "getChangedLines e relativePath =
     (case git_diff_U0 e relativePath of None \<Rightarrow> [] | Some stdout \<Rightarrow> parseDiff stdout)"

section \<open>Diff-to-block mapper: \<^verbatim>\<open>findCodeBlockAtLine\<close> and \<^verbatim>\<open>locateAffectedBlocks\<close>\<close>

datatype BlockType = BT_function | BT_method | BT_class | BT_interface | BT_component

record CodeBlock =
  cb_type :: BlockType
  cb_name :: string
  startLine :: nat
  endLine :: nat
  signature :: string
  fullCode :: string
  changedLineNumbers :: "number list"

definition isReactComponent :: "string \<Rightarrow> bool" where
  "isReactComponent code =
     (includesStr code ''return ('' \<and> (includesStr code ''<'' \<or> includesStr code ''jsx''))"

definition extractFunctionSignature :: "string option \<Rightarrow> string list \<Rightarrow> string \<Rightarrow> bool \<Rightarrow> string" where
  "extractFunctionSignature nm params returnType isAsync =
     (if isAsync then ''async '' else []) @ ''function '' @ orDefault nm ''anonymous'' @
     ''('' @ join params '', '' @ ''): '' @ returnType"

definition extractMethodSignature :: "string \<Rightarrow> string list \<Rightarrow> string \<Rightarrow> bool \<Rightarrow> string" where
  "extractMethodSignature nm params returnType isAsync =
     (if isAsync then ''async '' else []) @ nm @ ''('' @ join params '', '' @ ''): '' @ returnType"

text \<open>
  The body of the \<^verbatim>\<open>while (current)\<close> loop for one node: \<open>None\<close> when none of the five
  branches returns, so that the loop goes on to the parent. Reading a property of a
  missing parent is the TypeError JavaScript raises.
\<close>

definition blockOfNode :: "number \<Rightarrow> Node \<Rightarrow> (error + CodeBlock) option" where
  "blockOfNode lineNo current =
     (case getKind current of
        FunctionDeclaration nm params returnType isAsync \<Rightarrow>
          Some (Inr \<lparr>cb_type = (if isReactComponent (getText current) then BT_component else BT_function),
                      cb_name = orDefault nm ''anonymous'',
                      startLine = getStartLine current, endLine = getEndLine current,
                      signature = extractFunctionSignature nm params returnType isAsync,
                      fullCode = getText current, changedLineNumbers = [lineNo]\<rparr>)
      | VariableDeclaration nm \<Rightarrow>
          (case getInitializer current of
             None \<Rightarrow> None
           | Some initializer \<Rightarrow>
               if getKind initializer = ArrowFunction then
                 (case getParent current of
                    None \<Rightarrow> Some (Inl TypeError)
                  | Some p \<Rightarrow>
                     (case getParent p of
                        None \<Rightarrow> Some (Inl TypeError)
                      | Some pp \<Rightarrow>
                          Some (Inr \<lparr>cb_type = (if isReactComponent (getText pp) then BT_component else BT_function),
                                      cb_name = nm,
                                      startLine = getStartLine current, endLine = getEndLine current,
                                      signature = ''const '' @ nm @ '' = '' @
                                        hd (split (getText initializer) (CHR ''{'')) @ ''=> {...}'',
                                      fullCode = getText pp, changedLineNumbers = [lineNo]\<rparr>)))
               else None)
      | MethodDeclaration nm params returnType isAsync \<Rightarrow>
          (case getParent current of
             None \<Rightarrow> Some (Inl TypeError)
           | Some p \<Rightarrow>
               Some (Inr \<lparr>cb_type = BT_method,
                           cb_name = orDefault (case getKind p of ClassDeclaration cn \<Rightarrow> cn | _ \<Rightarrow> None) ''Unknown''
                                     @ ''.'' @ nm,
                           startLine = getStartLine current, endLine = getEndLine current,
                           signature = extractMethodSignature nm params returnType isAsync,
                           fullCode = getText current, changedLineNumbers = [lineNo]\<rparr>))
      | ClassDeclaration nm \<Rightarrow>
          Some (Inr \<lparr>cb_type = BT_class, cb_name = orDefault nm ''anonymous'',
                      startLine = getStartLine current, endLine = getEndLine current,
                      signature = ''class '' @ orDefault nm ''anonymous'',
                      fullCode = getText current, changedLineNumbers = [lineNo]\<rparr>)
      | InterfaceDeclaration nm \<Rightarrow>
          Some (Inr \<lparr>cb_type = BT_interface, cb_name = nm,
                      startLine = getStartLine current, endLine = getEndLine current,
                      signature = ''interface '' @ nm,
                      fullCode = getText current, changedLineNumbers = [lineNo]\<rparr>)
      | _ \<Rightarrow> None)"

fun walkUp :: "number \<Rightarrow> Node \<Rightarrow> error + CodeBlock option" where
  "walkUp lineNo (Node k txt s e ini par) =
     (case blockOfNode lineNo (Node k txt s e ini par) of
        Some (Inl err) \<Rightarrow> Inl err
      | Some (Inr block) \<Rightarrow> Inr (Some block)
      | None \<Rightarrow> (case par of None \<Rightarrow> Inr None | Some p \<Rightarrow> walkUp lineNo p))"

text \<open>
  The character offset of the start of line \<open>lineNo\<close>: the loop
  \<^verbatim>\<open>for (let i = 0; i < lineNumber - 1 && i < lines.length; i++)\<close> adds up the lengths of the
  first \<^verbatim>\<open>lineNumber - 1\<close> lines, of all lines when there are fewer. A text has fewer than
  \<^verbatim>\<open>2^53\<close> lines, so the rounding of \<^verbatim>\<open>lineNumber - 1\<close> makes no difference. Then the walk
  to the root.
\<close>

definition posOfLine :: "string \<Rightarrow> number \<Rightarrow> nat" where
  "posOfLine text lineNo =
     sum_list (map (\<lambda>l. length l + 1)
       (case lineNo of
          Finite n \<Rightarrow> take (n - 1) (split text newline)
        | Infinity \<Rightarrow> split text newline))"

definition findCodeBlockAtLine :: "SourceFile \<Rightarrow> number \<Rightarrow> error + CodeBlock option" where
  "findCodeBlockAtLine sourceFile lineNo =
     (case getDescendantAtPos sourceFile (posOfLine (getFullText sourceFile) lineNo) of
        None \<Rightarrow> Inr None
      | Some node \<Rightarrow> walkUp lineNo node)"

definition blockTypeString :: "BlockType \<Rightarrow> string" where
  "blockTypeString t =
     (case t of BT_function \<Rightarrow> ''function'' | BT_method \<Rightarrow> ''method'' | BT_class \<Rightarrow> ''class''
      | BT_interface \<Rightarrow> ''interface'' | BT_component \<Rightarrow> ''component'')"

text \<open>The key \<^verbatim>\<open>`${block.type}-${block.name}-${block.startLine}`\<close>.\<close>

definition blockKey :: "CodeBlock \<Rightarrow> string" where
  "blockKey b = blockTypeString (cb_type b) @ ''-'' @ cb_name b @ ''-'' @ toString (startLine b)"

definition sameBlock :: "CodeBlock \<Rightarrow> CodeBlock \<Rightarrow> bool" where
  "sameBlock b block =
     (cb_type b = cb_type block \<and> cb_name b = cb_name block \<and> startLine b = startLine block)"

text \<open>
  The \<^verbatim>\<open>else\<close> branch: the first recorded block with the same type, name and start line gets
  the line number pushed unless it already has it.
\<close>

fun addChangedLine :: "CodeBlock list \<Rightarrow> CodeBlock \<Rightarrow> number \<Rightarrow> CodeBlock list" where
  "addChangedLine [] block n = []"
| "addChangedLine (b # bs) block n =
     (if sameBlock b block then
        (if n \<in> set (changedLineNumbers b) then b
         else b\<lparr>changedLineNumbers := changedLineNumbers b @ [n]\<rparr>) # bs
      else b # addChangedLine bs block n)"

text \<open>
  The loop over the relevant lines; the state is the \<^verbatim>\<open>blocks\<close> array and the
  \<^verbatim>\<open>processedBlocks\<close> set of keys (in insertion order).
\<close>

fun locateLoop :: "SourceFile \<Rightarrow> ChangedLine list \<Rightarrow> CodeBlock list \<times> string list
    \<Rightarrow> error + CodeBlock list \<times> string list" where
  "locateLoop sf [] st = Inr st"
| "locateLoop sf (changedLine # rest) (blocks, processedBlocks) =
     (case findCodeBlockAtLine sf (lineNumber changedLine) of
        Inl err \<Rightarrow> Inl err
      | Inr None \<Rightarrow> locateLoop sf rest (blocks, processedBlocks)
      | Inr (Some block) \<Rightarrow>
          if blockKey block \<notin> set processedBlocks then
            locateLoop sf rest (blocks @ [block], processedBlocks @ [blockKey block])
          else
            locateLoop sf rest (addChangedLine blocks block (lineNumber changedLine), processedBlocks))"

definition relevantLines :: "ChangedLine list \<Rightarrow> ChangedLine list" where
  "relevantLines changedLines = filter (\<lambda>l. cl_type l = add \<or> cl_type l = modify) changedLines"

definition locateAffectedBlocks :: "env \<Rightarrow> string \<Rightarrow> ChangedLine list \<Rightarrow> error + CodeBlock list" where
  "locateAffectedBlocks e filePath changedLines =
     (if \<not> existsSync e filePath then Inr []
      else
        (case addSourceFileAtPath e filePath of
           None \<Rightarrow> Inl (FileNotFoundError filePath)
         | Some sourceFile \<Rightarrow>
            (case locateLoop sourceFile (relevantLines changedLines) ([], []) of
               Inl err \<Rightarrow> Inl err
             | Inr (blocks, _) \<Rightarrow> Inr blocks)))"

section \<open>Staged changes: \<^verbatim>\<open>getStagedFiles\<close>, \<^verbatim>\<open>analyzeFileChange\<close>, \<^verbatim>\<open>analyzeStagedChanges\<close>\<close>

datatype FileStatus = added | modified | deleted

record FileChange =
  fc_filePath :: string
  fc_relativePath :: string
  fc_status :: FileStatus
  changedLines :: "ChangedLine list"
  affectedBlocks :: "CodeBlock list"

record Summary =
  sum_added :: nat
  sum_modified :: nat
  sum_deleted :: nat

record DiffAnalysis =
  totalFiles :: nat
  fileChanges :: "FileChange list"
  summary :: Summary

text \<open>
  \<^verbatim>\<open>const [status, filePath] = line.split('\t')\<close>: the first field is always there, the second
  is undefined when the line has no tab.
\<close>

definition statusField :: "string \<Rightarrow> string" where
  "statusField line = hd (split line tab)"

definition pathField :: "string \<Rightarrow> string option" where
  "pathField line = (case split line tab of _ # p # _ \<Rightarrow> Some p | _ \<Rightarrow> None)"

text \<open>The loop over the output lines; a status other than A, M or D takes the \<^verbatim>\<open>continue\<close>.\<close>

fun stagedEntries :: "string list \<Rightarrow> (string option \<times> FileStatus) list" where
  "stagedEntries [] = []"
| "stagedEntries (line # rest) =
     (if statusField line = ''A'' then (pathField line, added) # stagedEntries rest
      else if statusField line = ''M'' then (pathField line, modified) # stagedEntries rest
      else if statusField line = ''D'' then (pathField line, deleted) # stagedEntries rest
      else stagedEntries rest)"

definition getStagedFiles :: "env \<Rightarrow> error + (string option \<times> FileStatus) list" where
  "getStagedFiles e =
     (case git_name_status e of
        Inl message \<Rightarrow>
          (if includesStr message ''not a git repository'' then Inl NotGitRepository
           else Inl (ExecError message))
      | Inr stdout \<Rightarrow>
          (if trim stdout = [] then Inr []
           else Inr (stagedEntries (split (trim stdout) newline))))"

definition isSourceFile :: "env \<Rightarrow> string \<Rightarrow> bool" where
  "isSourceFile e filePath =
     (path_extname e filePath \<in> set [''.ts'', ''.tsx'', ''.js'', ''.jsx''] \<and>
      \<not> includesStr filePath ''.test.'' \<and> \<not> includesStr filePath ''.spec.'')"

definition analyzeFileChange :: "env \<Rightarrow> string \<Rightarrow> FileStatus \<Rightarrow> string \<Rightarrow> error + FileChange option" where
  "analyzeFileChange e relativePath status absolutePath =
     (if status = deleted then
        Inr (Some \<lparr>fc_filePath = absolutePath, fc_relativePath = relativePath, fc_status = status,
                    changedLines = [], affectedBlocks = []\<rparr>)
      else if getChangedLines e relativePath = [] then Inr None
      else
        (case locateAffectedBlocks e absolutePath (getChangedLines e relativePath) of
           Inl err \<Rightarrow> Inl err
         | Inr blocks \<Rightarrow>
             Inr (Some \<lparr>fc_filePath = absolutePath, fc_relativePath = relativePath, fc_status = status,
                         changedLines = getChangedLines e relativePath, affectedBlocks = blocks\<rparr>)))"

text \<open>\<^verbatim>\<open>summary[file.status]++\<close>.\<close>

definition bump :: "FileStatus \<Rightarrow> Summary \<Rightarrow> Summary" where
  "bump status s =
     (case status of
        added \<Rightarrow> s\<lparr>sum_added := sum_added s + 1\<rparr>
      | modified \<Rightarrow> s\<lparr>sum_modified := sum_modified s + 1\<rparr>
      | deleted \<Rightarrow> s\<lparr>sum_deleted := sum_deleted s + 1\<rparr>)"

text \<open>
  The loop over the staged files. \<^verbatim>\<open>path.join\<close> of an undefined path raises a TypeError
  before anything else is done with the entry.
\<close>

fun stagedLoop :: "env \<Rightarrow> (string option \<times> FileStatus) list \<Rightarrow> FileChange list \<times> Summary
    \<Rightarrow> error + FileChange list \<times> Summary" where
  "stagedLoop e [] st = Inr st"
| "stagedLoop e ((None, status) # rest) st = Inl TypeError"
| "stagedLoop e ((Some p, status) # rest) (fcs, s) =
     (if \<not> isSourceFile e p then stagedLoop e rest (fcs, s)
      else
        (case analyzeFileChange e p status (path_join e (rootPath e) p) of
           Inl err \<Rightarrow> Inl err
         | Inr None \<Rightarrow> stagedLoop e rest (fcs, s)
         | Inr (Some fileChange) \<Rightarrow> stagedLoop e rest (fcs @ [fileChange], bump status s)))"

definition analyzeStagedChanges :: "env \<Rightarrow> error + DiffAnalysis" where
  "analyzeStagedChanges e =
     (case getStagedFiles e of
        Inl err \<Rightarrow> Inl err
      | Inr stagedFiles \<Rightarrow>
          if stagedFiles = [] then
            Inr \<lparr>totalFiles = 0, fileChanges = [],
                 summary = \<lparr>sum_added = 0, sum_modified = 0, sum_deleted = 0\<rparr>\<rparr>
          else
            (case stagedLoop e stagedFiles ([], \<lparr>sum_added = 0, sum_modified = 0, sum_deleted = 0\<rparr>) of
               Inl err \<Rightarrow> Inl err
             | Inr (fcs, s) \<Rightarrow> Inr \<lparr>totalFiles = length fcs, fileChanges = fcs, summary = s\<rparr>))"

section \<open>Dependency graph builder: \<^verbatim>\<open>DependencyTracer\<close>\<close>

datatype DependencyType = DT_component | DT_hook | DT_util | DT_service | DT_type | DT_other

record DependencyInfo =
  dep_filePath :: string
  dep_relativePath :: string
  dep_type :: DependencyType
  dep_imports :: "string list"

record DependentInfo =
  dnt_filePath :: string
  dnt_relativePath :: string
  importedItems :: "string list"
  usageCount :: nat

datatype ExportType = ET_function | ET_class | ET_interface | ET_type | ET_const | ET_default

record ExportedItem =
  exp_name :: string
  exp_type :: ExportType
  isUsedExternally :: bool

record ImpactAnalysis =
  targetFile :: string
  targetRelativePath :: string
  exports :: "ExportedItem list"
  dependencies :: "DependencyInfo list"
  dependents :: "DependentInfo list"

text \<open>The six passes of \<^verbatim>\<open>extractExports\<close>, in their order; every item starts as not used.\<close>

definition extractExports :: "SourceFile \<Rightarrow> ExportedItem list" where
  "extractExports sourceFile =
     map (\<lambda>(nm, ex). \<lparr>exp_name = orDefault nm ''anonymous'', exp_type = ET_function, isUsedExternally = False\<rparr>)
         (filter snd (getFunctions sourceFile)) @
     map (\<lambda>(nm, ex). \<lparr>exp_name = orDefault nm ''anonymous'', exp_type = ET_class, isUsedExternally = False\<rparr>)
         (filter snd (getClasses sourceFile)) @
     map (\<lambda>(nm, ex). \<lparr>exp_name = nm, exp_type = ET_interface, isUsedExternally = False\<rparr>)
         (filter snd (getInterfaces sourceFile)) @
     map (\<lambda>(nm, ex). \<lparr>exp_name = nm, exp_type = ET_type, isUsedExternally = False\<rparr>)
         (filter snd (getTypeAliases sourceFile)) @
     concat (map (\<lambda>(ex, names).
                    map (\<lambda>nm. \<lparr>exp_name = nm, exp_type = ET_const, isUsedExternally = False\<rparr>) names)
                 (filter fst (getVariableStatements sourceFile))) @
     (if getDefaultExportSymbol sourceFile
      then [\<lparr>exp_name = ''default'', exp_type = ET_default, isUsedExternally = False\<rparr>] else [])"

definition possibleExtensions :: "string list" where
  "possibleExtensions =
     ['''', ''.ts'', ''.tsx'', ''.js'', ''.jsx'', ''/index.ts'', ''/index.tsx'', ''/index.js'', ''/index.jsx'']"

fun probe :: "env \<Rightarrow> string \<Rightarrow> string \<Rightarrow> string list \<Rightarrow> string option" where
  "probe e currentDir specifier [] = None"
| "probe e currentDir specifier (ext # exts) =
     (if existsSync e (path_resolve e currentDir (specifier @ ext))
      then Some (path_resolve e currentDir (specifier @ ext))
      else probe e currentDir specifier exts)"

text \<open>
  A specifier that starts with \<^verbatim>\<open>@/\<close> has that first occurrence replaced by \<^verbatim>\<open>src/\<close> and is
  resolved from the project root.
\<close>

definition resolveImportPath :: "env \<Rightarrow> string \<Rightarrow> string \<Rightarrow> string option" where
  "resolveImportPath e currentDir moduleSpecifier =
     (if startsWith moduleSpecifier ''@/''
      then probe e (rootPath e) (''src/'' @ drop 2 moduleSpecifier) possibleExtensions
      else probe e currentDir moduleSpecifier possibleExtensions)"

definition isUpperCase :: "char \<Rightarrow> bool" where
  "isUpperCase c = (c \<in> set ''ABCDEFGHIJKLMNOPQRSTUVWXYZ'')"

text \<open>The pattern \<^verbatim>\<open>/use[A-Z]/\<close>, anywhere in the string.\<close>

fun matchUseUpper :: "string \<Rightarrow> bool" where
  "matchUseUpper [] = False"
| "matchUseUpper (c # cs) =
     ((startsWith (c # cs) ''use'' \<and> (case drop 3 (c # cs) of [] \<Rightarrow> False | d # _ \<Rightarrow> isUpperCase d))
      \<or> matchUseUpper cs)"

text \<open>The file is read first, so a path that cannot be read raises before any rule applies.\<close>

definition determineFileType :: "env \<Rightarrow> string \<Rightarrow> error + DependencyType" where
  "determineFileType e filePath =
     (case readFileSync e filePath of
        None \<Rightarrow> Inl (FileNotFoundError filePath)
      | Some content \<Rightarrow>
          Inr (if startsWith (toLowerCase (path_basename e filePath)) ''use'' \<and>
                  matchUseUpper (toLowerCase (path_basename e filePath)) then DT_hook
               else if endsWith filePath ''.tsx'' \<or> endsWith filePath ''.jsx'' then DT_component
               else if includesStr content ''return ('' \<and> includesStr content ''<'' \<and>
                       includesStr content ''/>'' then DT_component
               else if includesStr (toLowerCase (path_basename e filePath)) ''service'' \<or>
                       includesStr (toLowerCase (path_basename e filePath)) ''api'' \<or>
                       includesStr (toLowerCase (path_basename e filePath)) ''client'' then DT_service
               else if includesStr (toLowerCase (path_basename e filePath)) ''type'' \<or>
                       endsWith (toLowerCase (path_basename e filePath)) ''.d.ts'' then DT_type
               else if includesStr (toLowerCase (path_basename e filePath)) ''util'' \<or>
                       includesStr (toLowerCase (path_basename e filePath)) ''helper'' \<or>
                       includesStr (toLowerCase (path_basename e filePath)) ''tool'' then DT_util
               else DT_other))"

text \<open>The names an import declaration binds: the default import, then the named imports.\<close>

definition importNames :: "ImportDeclaration \<Rightarrow> string list" where
  "importNames importDecl =
     (case getDefaultImport importDecl of None \<Rightarrow> [] | Some d \<Rightarrow> [d]) @ getNamedImports importDecl"

definition isLocalSpecifier :: "string \<Rightarrow> bool" where
  "isLocalSpecifier moduleSpecifier =
     (startsWith moduleSpecifier ''.'' \<or> startsWith moduleSpecifier ''/'')"

text \<open>
  The first part of the callback that \<^verbatim>\<open>analyzeDependencies\<close> runs on an import declaration,
  up to the record it pushes: \<open>None\<close> when the callback returns early (the specifier is not
  local, does not resolve, or resolves outside the root), the error when
  \<^verbatim>\<open>determineFileType\<close> raises.
\<close>

definition edgeOf :: "env \<Rightarrow> string \<Rightarrow> ImportDeclaration \<Rightarrow> (error + DependencyInfo) option" where
  "edgeOf e filePath importDecl =
     (if \<not> isLocalSpecifier (getModuleSpecifierValue importDecl) then None
      else
        (case resolveImportPath e (path_dirname e filePath) (getModuleSpecifierValue importDecl) of
           None \<Rightarrow> None
         | Some resolvedPath \<Rightarrow>
             if \<not> includesStr resolvedPath (rootPath e) then None
             else
               (case determineFileType e resolvedPath of
                  Inl err \<Rightarrow> Some (Inl err)
                | Inr ty \<Rightarrow>
                    Some (Inr \<lparr>dep_filePath = resolvedPath,
                                dep_relativePath = path_relative e (rootPath e) resolvedPath,
                                dep_type = ty, dep_imports = importNames importDecl\<rparr>))))"

text \<open>
  \<^verbatim>\<open>analyzeDependencies\<close> with the \<^verbatim>\<open>visited\<close> field passed through explicitly (a JavaScript
  \<^verbatim>\<open>Set\<close>, kept in insertion order). \<open>importsLoop\<close> is the \<^verbatim>\<open>forEach\<close> over the import
  declarations of one file; its state is the \<^verbatim>\<open>dependencies\<close> array of that call and the
  visited set. The edge is pushed before the recursive call looks at the visited set.
\<close>

function analyzeDependencies ::
    "env \<Rightarrow> SourceFile \<Rightarrow> nat \<Rightarrow> nat \<Rightarrow> string list \<Rightarrow> error + DependencyInfo list \<times> string list"
  and importsLoop ::
    "env \<Rightarrow> string \<Rightarrow> nat \<Rightarrow> nat \<Rightarrow> ImportDeclaration list \<Rightarrow> DependencyInfo list \<Rightarrow> string list
      \<Rightarrow> error + DependencyInfo list \<times> string list"
where
  "analyzeDependencies e sourceFile depth maxDepth visited =
     (if depth > maxDepth then Inr ([], visited)
      else if getFilePath sourceFile \<in> set visited then Inr ([], visited)
      else importsLoop e (getFilePath sourceFile) depth maxDepth (getImportDeclarations sourceFile) []
             (visited @ [getFilePath sourceFile]))"
| "importsLoop e filePath depth maxDepth [] deps visited = Inr (deps, visited)"
| "importsLoop e filePath depth maxDepth (importDecl # rest) deps visited =
     (case edgeOf e filePath importDecl of
        None \<Rightarrow> importsLoop e filePath depth maxDepth rest deps visited
      | Some (Inl err) \<Rightarrow> Inl err
      | Some (Inr dep) \<Rightarrow>
          if depth < maxDepth then
            (case addSourceFileAtPath e (dep_filePath dep) of
               None \<Rightarrow> Inl (FileNotFoundError (dep_filePath dep))
             | Some depSourceFile \<Rightarrow>
                 (case analyzeDependencies e depSourceFile (depth + 1) maxDepth visited of
                    Inl err \<Rightarrow> Inl err
                  | Inr (subDeps, visited') \<Rightarrow>
                      importsLoop e filePath depth maxDepth rest (deps @ [dep] @ subDeps) visited'))
          else importsLoop e filePath depth maxDepth rest (deps @ [dep]) visited)"
  by pat_completeness auto
termination
  by (relation "inv_image (less_than <*lex*> less_than <*lex*> less_than)
       (\<lambda>x. case x of
          Inl (e, sf, depth, maxDepth, visited) \<Rightarrow> (Suc maxDepth - depth, Suc 0, 0)
        | Inr (e, fp, depth, maxDepth, decls, deps, visited) \<Rightarrow> (Suc maxDepth - depth, 0, length decls))")
     auto

declare analyzeDependencies.simps [simp del]

text \<open>The default \<^verbatim>\<open>maxDepth = 3\<close>.\<close>

definition defaultMaxDepth :: nat where
  "defaultMaxDepth = 3"

text \<open>
  The scan of one file of the listing: every import declaration that resolves to the
  target pushes its names and counts each of them.
\<close>

definition scanImport :: "env \<Rightarrow> string \<Rightarrow> string \<Rightarrow> string list \<times> nat \<Rightarrow> ImportDeclaration
    \<Rightarrow> string list \<times> nat" where
  "scanImport e file targetPath st importDecl =
     (case st of (items, count) \<Rightarrow>
        if resolveImportPath e (path_dirname e file) (getModuleSpecifierValue importDecl) = Some targetPath
        then
          foldl (\<lambda>(is, c) named. (is @ [named], c + 1))
            (case getDefaultImport importDecl of
               None \<Rightarrow> (items, count)
             | Some d \<Rightarrow> (items @ [d], count + 1))
            (getNamedImports importDecl)
        else (items, count))"

fun dependentsLoop :: "env \<Rightarrow> string \<Rightarrow> string list \<Rightarrow> DependentInfo list \<Rightarrow> error + DependentInfo list" where
  "dependentsLoop e targetPath [] acc = Inr acc"
| "dependentsLoop e targetPath (file # files) acc =
     (if file = targetPath then dependentsLoop e targetPath files acc
      else
        (case addSourceFileAtPath e file of
           None \<Rightarrow> Inl (FileNotFoundError file)
         | Some sourceFile \<Rightarrow>
             (case foldl (scanImport e file targetPath) ([], 0) (getImportDeclarations sourceFile) of
                (items, count) \<Rightarrow>
                  if items \<noteq> [] then
                    dependentsLoop e targetPath files
                      (acc @ [\<lparr>dnt_filePath = file, dnt_relativePath = path_relative e (rootPath e) file,
                                importedItems = items, usageCount = count\<rparr>])
                  else dependentsLoop e targetPath files acc)))"

definition analyzeDependents :: "env \<Rightarrow> string \<Rightarrow> error + DependentInfo list" where
  "analyzeDependents e targetPath = dependentsLoop e targetPath (globby e) []"

definition absolutePathOf :: "env \<Rightarrow> string \<Rightarrow> string" where
  "absolutePathOf e filePath =
     (if path_isAbsolute e filePath then filePath else path_join e (rootPath e) filePath)"

text \<open>
  \<^verbatim>\<open>analyzeImpact\<close>: the visited set is cleared before the forward traversal; the exports are
  returned as \<^verbatim>\<open>extractExports\<close> made them.
\<close>

definition analyzeImpact :: "env \<Rightarrow> string \<Rightarrow> error + ImpactAnalysis" where
  "analyzeImpact e filePath =
     (if \<not> existsSync e (absolutePathOf e filePath) then Inl (NotFound filePath)
      else
        (case addSourceFileAtPath e (absolutePathOf e filePath) of
           None \<Rightarrow> Inl (FileNotFoundError (absolutePathOf e filePath))
         | Some sourceFile \<Rightarrow>
             (case analyzeDependencies e sourceFile 0 defaultMaxDepth [] of
                Inl err \<Rightarrow> Inl err
              | Inr (deps, _) \<Rightarrow>
                  (case analyzeDependents e (absolutePathOf e filePath) of
                     Inl err \<Rightarrow> Inl err
                   | Inr dnts \<Rightarrow>
                       Inr \<lparr>targetFile = absolutePathOf e filePath,
                            targetRelativePath = path_relative e (rootPath e) (absolutePathOf e filePath),
                            exports = extractExports sourceFile,
                            dependencies = deps,
                            dependents = dnts\<rparr>))))"

text \<open>
  The same traversal with a log: every call that passes both guards and goes on to read
  the imports of its file appends the file and its depth. The log is returned beside the
  result, also when the traversal raises. It is not part of the program:
  \<open>analyzeDependencies\<close> is the first component of this function.
\<close>

function analyzeDependenciesLog ::
    "env \<Rightarrow> SourceFile \<Rightarrow> nat \<Rightarrow> nat \<Rightarrow> string list \<Rightarrow> (string \<times> nat) list
      \<Rightarrow> (error + DependencyInfo list \<times> string list) \<times> (string \<times> nat) list"
  and importsLoopLog ::
    "env \<Rightarrow> string \<Rightarrow> nat \<Rightarrow> nat \<Rightarrow> ImportDeclaration list \<Rightarrow> DependencyInfo list \<Rightarrow> string list
      \<Rightarrow> (string \<times> nat) list \<Rightarrow> (error + DependencyInfo list \<times> string list) \<times> (string \<times> nat) list"
where
  "analyzeDependenciesLog e sourceFile depth maxDepth visited trace =
     (if depth > maxDepth then (Inr ([], visited), trace)
      else if getFilePath sourceFile \<in> set visited then (Inr ([], visited), trace)
      else importsLoopLog e (getFilePath sourceFile) depth maxDepth (getImportDeclarations sourceFile) []
             (visited @ [getFilePath sourceFile]) (trace @ [(getFilePath sourceFile, depth)]))"
| "importsLoopLog e filePath depth maxDepth [] deps visited trace = (Inr (deps, visited), trace)"
| "importsLoopLog e filePath depth maxDepth (importDecl # rest) deps visited trace =
     (case edgeOf e filePath importDecl of
        None \<Rightarrow> importsLoopLog e filePath depth maxDepth rest deps visited trace
      | Some (Inl err) \<Rightarrow> (Inl err, trace)
      | Some (Inr dep) \<Rightarrow>
          if depth < maxDepth then
            (case addSourceFileAtPath e (dep_filePath dep) of
               None \<Rightarrow> (Inl (FileNotFoundError (dep_filePath dep)), trace)
             | Some depSourceFile \<Rightarrow>
                 (case analyzeDependenciesLog e depSourceFile (depth + 1) maxDepth visited trace of
                    (Inl err, trace') \<Rightarrow> (Inl err, trace')
                  | (Inr (subDeps, visited'), trace') \<Rightarrow>
                      importsLoopLog e filePath depth maxDepth rest (deps @ [dep] @ subDeps) visited' trace'))
          else importsLoopLog e filePath depth maxDepth rest (deps @ [dep]) visited trace)"
  by pat_completeness auto
termination
  by (relation "inv_image (less_than <*lex*> less_than <*lex*> less_than)
       (\<lambda>x. case x of
          Inl (e, sf, depth, maxDepth, visited, trace) \<Rightarrow> (Suc maxDepth - depth, Suc 0, 0)
        | Inr (e, fp, depth, maxDepth, decls, deps, visited, trace) \<Rightarrow>
            (Suc maxDepth - depth, 0, length decls))")
     auto

declare analyzeDependenciesLog.simps [simp del]

section \<open>Marker-to-declaration mapping: \<^verbatim>\<open>TaskHydrator.findFollowingCodeBlock\<close>\<close>

datatype TaskBlockType = TB_function | TB_method | TB_arrow | TB_class

record FollowingBlock =
  fb_type :: TaskBlockType
  fb_name :: "string option"
  fb_code :: string
  fb_node :: Node
  fb_startLine :: nat
  fb_endLine :: nat

text \<open>
  The kind test inside the callback: the block type and name for a function declaration, a
  method declaration, an arrow function (named after its parent when that is a variable
  declaration) and a class declaration; \<open>None\<close> for every other node.
\<close>

definition blockTypeOf :: "Node \<Rightarrow> (TaskBlockType \<times> string option) option" where
  "blockTypeOf node =
     (case getKind node of
        FunctionDeclaration nm _ _ _ \<Rightarrow> Some (TB_function, nm)
      | MethodDeclaration nm _ _ _ \<Rightarrow> Some (TB_method, Some nm)
      | ArrowFunction \<Rightarrow>
          Some (TB_arrow,
                (case getParent node of
                   None \<Rightarrow> None
                 | Some p \<Rightarrow> (case getKind p of VariableDeclaration vn \<Rightarrow> Some vn | _ \<Rightarrow> None)))
      | ClassDeclaration nm \<Rightarrow> Some (TB_class, nm)
      | _ \<Rightarrow> None)"

text \<open>
  The callback of \<^verbatim>\<open>forEachDescendant\<close>; the state is \<^verbatim>\<open>result\<close> and \<^verbatim>\<open>minDistance\<close>, which
  starts as \<^verbatim>\<open>Infinity\<close>.
\<close>

definition followStep :: "nat \<Rightarrow> FollowingBlock option \<times> enat \<Rightarrow> Node \<Rightarrow> FollowingBlock option \<times> enat" where
  "followStep commentLine st node =
     (case st of (result, minDistance) \<Rightarrow>
        if getStartLine node > commentLine \<and> enat (getStartLine node - commentLine) < minDistance then
          (case blockTypeOf node of
             None \<Rightarrow> (result, minDistance)
           | Some (ty, nm) \<Rightarrow>
               (Some \<lparr>fb_type = ty, fb_name = nm, fb_code = getText node, fb_node = node,
                      fb_startLine = getStartLine node, fb_endLine = getEndLine node\<rparr>,
                enat (getStartLine node - commentLine)))
        else (result, minDistance))"

definition findFollowingCodeBlock :: "SourceFile \<Rightarrow> nat \<Rightarrow> FollowingBlock option" where
  "findFollowingCodeBlock sourceFile commentLine =
     fst (foldl (followStep commentLine) (None, \<infinity>) (forEachDescendant sourceFile))"

section \<open>Relevance scorer: \<^verbatim>\<open>ContextFinder.calculateMatchScore\<close>\<close>

text \<open>
  Of a \<^verbatim>\<open>FileAnalysis\<close> the scorer reads the two paths, the exported names, and the names of
  the functions and of the interfaces (a name may be undefined).
\<close>

record FileAnalysis =
  fa_filePath :: string
  fa_relativePath :: string
  fa_exports :: "string list"
  fa_functions :: "string option list"
  fa_interfaces :: "string option list"

text \<open>\<^verbatim>\<open>name?.toLowerCase().includes(keyword)\<close>: undefined, hence falsy, for a missing name.\<close>

definition optNameMatches :: "string option \<Rightarrow> string \<Rightarrow> bool" where
  "optNameMatches nm keyword =
     (case nm of None \<Rightarrow> False | Some n \<Rightarrow> includesStr (toLowerCase n) keyword)"

text \<open>One round of the loop over the keywords; the state is the score and the matched keywords.\<close>

definition scoreStep :: "env \<Rightarrow> FileAnalysis \<Rightarrow> nat \<times> string list \<Rightarrow> string \<Rightarrow> nat \<times> string list" where
  "scoreStep e file st keyword =
     (let st1 = (case st of (score, matched) \<Rightarrow>
                   if includesStr (toLowerCase (path_basename e (fa_filePath file))) keyword
                   then (score + 10, matched @ [keyword])
                   else if includesStr (toLowerCase (fa_relativePath file)) keyword
                   then (score + 5, matched @ [keyword])
                   else (score, matched));
          st2 = foldl (\<lambda>(score, matched) exp.
                         if includesStr (toLowerCase exp) keyword
                         then (score + 8, matched @ [keyword]) else (score, matched))
                      st1 (fa_exports file);
          st3 = foldl (\<lambda>(score, matched) func.
                         if optNameMatches func keyword
                         then (score + 6, matched @ [keyword]) else (score, matched))
                      st2 (fa_functions file)
      in foldl (\<lambda>(score, matched) iface.
                  if optNameMatches iface keyword
                  then (score + 6, matched @ [keyword]) else (score, matched))
               st3 (fa_interfaces file))"

definition calculateMatchScore :: "env \<Rightarrow> FileAnalysis \<Rightarrow> string list \<Rightarrow> nat \<times> string list" where
  "calculateMatchScore e file keywords =
     (case foldl (scoreStep e file) (0, []) keywords of
        (score, matched) \<Rightarrow> (score, uniq matched))"

section \<open>Reference notions used in the statements\<close>

text \<open>
  A line of a diff that records no event: it is neither an added line (\<^verbatim>\<open>+\<close> but not
  \<^verbatim>\<open>+++\<close>) nor a deleted line (\<^verbatim>\<open>-\<close> but not \<^verbatim>\<open>---\<close>).
\<close>

definition silent :: "string \<Rightarrow> bool" where
  "silent line =
     (\<not> (startsWith line ''+'' \<and> \<not> startsWith line ''+++'') \<and>
      \<not> (startsWith line ''-'' \<and> \<not> startsWith line ''---''))"

text \<open>An optional \<^verbatim>\<open>,<count>\<close> of a hunk header.\<close>

definition optComma :: "nat option \<Rightarrow> string" where
  "optComma c = (case c of None \<Rightarrow> [] | Some k \<Rightarrow> CHR '','' # toString k)"


text \<open>The nodes from a node up to the root, in the order in which the mapper visits them.\<close>

fun ancestors :: "Node \<Rightarrow> Node list" where
  "ancestors (Node k tx s e ini pr) =
     Node k tx s e ini pr # (case pr of None \<Rightarrow> [] | Some p \<Rightarrow> ancestors p)"

text \<open>
  The nodes that are a declaration for the mapper: a function, method, class or interface
  declaration, and a variable declaration whose initializer is an arrow function.
\<close>

definition declares :: "Node \<Rightarrow> bool" where
  "declares node =
     (case getKind node of
        FunctionDeclaration _ _ _ _ \<Rightarrow> True
      | VariableDeclaration _ \<Rightarrow>
          (case getInitializer node of None \<Rightarrow> False | Some i \<Rightarrow> getKind i = ArrowFunction)
      | MethodDeclaration _ _ _ _ \<Rightarrow> True
      | ClassDeclaration _ \<Rightarrow> True
      | InterfaceDeclaration _ \<Rightarrow> True
      | _ \<Rightarrow> False)"

text \<open>
  The code of a function declaration or of an arrow function bound to a variable: the text
  of the function declaration, and for the arrow function the text of the whole variable
  statement, which is the parent of the parent of the variable declaration.
\<close>

definition declaredCode :: "Node \<Rightarrow> string option" where
  "declaredCode node =
     (case getKind node of
        FunctionDeclaration _ _ _ _ \<Rightarrow> Some (getText node)
      | VariableDeclaration _ \<Rightarrow>
          (case getInitializer node of
             None \<Rightarrow> None
           | Some i \<Rightarrow>
               if getKind i = ArrowFunction
               then (case getParent node of
                       None \<Rightarrow> None
                     | Some p \<Rightarrow> map_option getText (getParent p))
               else None)
      | _ \<Rightarrow> None)"

text \<open>The status fields that \<^verbatim>\<open>getStagedFiles\<close> keeps.\<close>

definition isAMD :: "string \<Rightarrow> bool" where
  "isAMD line = (statusField line \<in> set [''A'', ''M'', ''D''])"

text \<open>
  The declarations the specification accepts as the target of a task marker: a function,
  a method, an arrow function bound to a variable, a class.
\<close>

definition acceptedBySpec :: "Node \<Rightarrow> bool" where
  "acceptedBySpec node =
     (case getKind node of
        FunctionDeclaration _ _ _ _ \<Rightarrow> True
      | MethodDeclaration _ _ _ _ \<Rightarrow> True
      | ClassDeclaration _ \<Rightarrow> True
      | ArrowFunction \<Rightarrow>
          (case getParent node of
             None \<Rightarrow> False
           | Some p \<Rightarrow> (case getKind p of VariableDeclaration _ \<Rightarrow> True | _ \<Rightarrow> False))
      | _ \<Rightarrow> False)"

text \<open>The four node kinds the callback of \<^verbatim>\<open>findFollowingCodeBlock\<close> accepts.\<close>

definition acceptedByCode :: "Node \<Rightarrow> bool" where
  "acceptedByCode node =
     (case getKind node of
        FunctionDeclaration _ _ _ _ \<Rightarrow> True
      | MethodDeclaration _ _ _ _ \<Rightarrow> True
      | ClassDeclaration _ \<Rightarrow> True
      | ArrowFunction \<Rightarrow> True
      | _ \<Rightarrow> False)"

text \<open>
  What the fold of \<^verbatim>\<open>findFollowingCodeBlock\<close> keeps true after the nodes \<open>xs\<close>: with no
  result so far the distance is still infinite and no accepted node after the marker has
  been seen; otherwise the result is built from an accepted node after the marker whose
  distance is the recorded one and whose start line is the least among the accepted nodes
  after the marker seen so far.
\<close>

definition followInv :: "nat \<Rightarrow> Node list \<Rightarrow> FollowingBlock option \<times> enat \<Rightarrow> bool" where
  "followInv L xs st =
     (case st of (result, minDistance) \<Rightarrow>
        (case result of
           None \<Rightarrow> minDistance = \<infinity> \<and> (\<forall>n \<in> set xs. \<not> (acceptedByCode n \<and> L < getStartLine n))
         | Some r \<Rightarrow>
             fb_node r \<in> set xs \<and> acceptedByCode (fb_node r) \<and> L < getStartLine (fb_node r) \<and>
             minDistance = enat (getStartLine (fb_node r) - L) \<and>
             fb_startLine r = getStartLine (fb_node r) \<and> fb_endLine r = getEndLine (fb_node r) \<and>
             fb_code r = getText (fb_node r) \<and>
             (\<forall>n \<in> set xs. acceptedByCode n \<and> L < getStartLine n \<longrightarrow>
                getStartLine (fb_node r) \<le> getStartLine n)))"

text \<open>
  The points one keyword earns for a file, tier by tier: the file-name tier or else the
  path tier, and every matching export, function name and interface name.
\<close>

definition fileTier :: "env \<Rightarrow> FileAnalysis \<Rightarrow> string \<Rightarrow> nat" where
  "fileTier e file keyword =
     (if includesStr (toLowerCase (path_basename e (fa_filePath file))) keyword then 10
      else if includesStr (toLowerCase (fa_relativePath file)) keyword then 5
      else 0)"

definition keywordPoints :: "env \<Rightarrow> FileAnalysis \<Rightarrow> string \<Rightarrow> nat" where
  "keywordPoints e file keyword =
     fileTier e file keyword
     + 8 * length (filter (\<lambda>exp. includesStr (toLowerCase exp) keyword) (fa_exports file))
     + 6 * length (filter (\<lambda>func. optNameMatches func keyword) (fa_functions file))
     + 6 * length (filter (\<lambda>iface. optNameMatches iface keyword) (fa_interfaces file))"

text \<open>
  The names that the import declarations of a file bind from a target: the names of every
  declaration whose specifier resolves to the target, in order and with repetitions.
\<close>

definition importedFrom :: "env \<Rightarrow> string \<Rightarrow> string \<Rightarrow> ImportDeclaration list \<Rightarrow> string list" where
  "importedFrom e file targetPath decls =
     concat (map importNames
       (filter (\<lambda>d. resolveImportPath e (path_dirname e file) (getModuleSpecifierValue d) = Some targetPath)
          decls))"

text \<open>How many recorded file changes have a given status.\<close>

definition countStatus :: "FileStatus \<Rightarrow> FileChange list \<Rightarrow> nat" where
  "countStatus st fcs = length (filter (\<lambda>fc. fc_status fc = st) fcs)"

section \<open>A sample project\<close>

text \<open>
  Three files under \<^verbatim>\<open>/p/src\<close> that import each other in a cycle:
  \<^verbatim>\<open>a.ts\<close> imports \<^verbatim>\<open>{ b }\<close> from \<^verbatim>\<open>./b\<close>, \<^verbatim>\<open>b.ts\<close> imports \<^verbatim>\<open>{ c }\<close> from \<^verbatim>\<open>./c\<close>, and
  \<^verbatim>\<open>c.ts\<close> imports \<^verbatim>\<open>{ a as x }\<close> and \<^verbatim>\<open>{ a as y }\<close> from \<^verbatim>\<open>./a\<close> in two declarations. Each
  file exports one function named after the file. The path functions agree with Node's
  \<^verbatim>\<open>path\<close> module on the paths that occur here.
\<close>

definition sample_dirname :: "string \<Rightarrow> string" where
  "sample_dirname p = rev (drop 1 (dropWhile (\<lambda>c. c \<noteq> CHR ''/'') (rev p)))"

definition sample_basename :: "string \<Rightarrow> string" where
  "sample_basename p = rev (takeWhile (\<lambda>c. c \<noteq> CHR ''/'') (rev p))"

text \<open>
  The extension is the part of the base name from its last dot on; a base name with no dot,
  or whose only dot is its first character, has none.
\<close>

definition sample_extname :: "string \<Rightarrow> string" where
  "sample_extname p =
     (if CHR ''.'' \<notin> set (drop 1 (sample_basename p)) then []
      else CHR ''.'' # rev (takeWhile (\<lambda>c. c \<noteq> CHR ''.'') (rev (sample_basename p))))"

definition sample_resolve :: "string \<Rightarrow> string \<Rightarrow> string" where
  "sample_resolve dir specifier =
     (if startsWith specifier ''/'' then specifier
      else if startsWith specifier ''./'' then dir @ ''/'' @ drop 2 specifier
      else dir @ ''/'' @ specifier)"

definition sample_relative :: "string \<Rightarrow> string \<Rightarrow> string" where
  "sample_relative from to =
     (if startsWith to (from @ ''/'') then drop (length from + 1) to else to)"

text \<open>The line \<^verbatim>\<open>import { <binding> } from '<specifier>';\<close>.\<close>

definition importLine :: "string \<Rightarrow> string \<Rightarrow> string" where
  "importLine binding specifier =
     ''import { '' @ binding @ '' } from '' @ [CHR 0x27] @ specifier @ [CHR 0x27] @ '';''"

text \<open>
  The text of \<^verbatim>\<open>a.ts\<close>: the import on line 1 and, on lines 2 to 5, one function whose only
  markup is inside a comment.
\<close>

definition sampleFunctionText :: string where
  "sampleFunctionText =
     ''export function a() {'' @ [newline] @
     ''  // return (<p/>)'' @ [newline] @
     ''  return b();'' @ [newline] @
     ''}''"

definition sampleText :: string where
  "sampleText = importLine ''b'' ''./b'' @ [newline] @ sampleFunctionText"

text \<open>
  Its syntax tree, as far as the analyzers look at it: the source file node, the import
  and the function declaration below it, and a token inside the function.
\<close>

definition sampleRoot :: Node where
  "sampleRoot = Node OtherKind sampleText 1 5 None None"

definition sampleImportNode :: Node where
  "sampleImportNode = Node OtherKind (importLine ''b'' ''./b'') 1 1 None (Some sampleRoot)"

definition sampleFunctionNode :: Node where
  "sampleFunctionNode =
     Node (FunctionDeclaration (Some ''a'') [] ''void'' False) sampleFunctionText 2 5 None
       (Some sampleRoot)"

definition sampleLeaf :: Node where
  "sampleLeaf = Node OtherKind ''export'' 2 2 None (Some sampleFunctionNode)"

text \<open>The block that the mapper finds for the lines of that function, with given changed lines.\<close>

definition sampleBlock :: "number list \<Rightarrow> CodeBlock" where
  "sampleBlock ns =
     \<lparr>cb_type = BT_component, cb_name = ''a'', startLine = 2, endLine = 5,
      signature = ''function a(): void'', fullCode = sampleFunctionText, changedLineNumbers = ns\<rparr>"

text \<open>A function that returns markup without a parenthesis.\<close>

definition markupFunction :: Node where
  "markupFunction =
     Node (FunctionDeclaration (Some ''F'') [] ''any'' False) ''function F() { return <div/>; }''
       1 1 None None"

text \<open>
  A file \<^verbatim>\<open>v.ts\<close> of three lines with one arrow function bound to a variable. The arrow
  function returns no markup; the type annotation of the variable has a \<^verbatim>\<open><\<close>. The syntax
  tree has the variable statement, the declaration list, the declaration with its
  initializer, the arrow function, and a token on line 1 and on line 2.
\<close>

definition viewArrowText :: string where
  "viewArrowText = ''() => {'' @ [newline] @ ''  return (null);'' @ [newline] @ ''}''"

definition viewText :: string where
  "viewText = ''export const View: FC<Props> = '' @ viewArrowText @ '';''"

definition viewRoot :: Node where
  "viewRoot = Node OtherKind viewText 1 3 None None"

definition viewStatement :: Node where
  "viewStatement = Node OtherKind viewText 1 3 None (Some viewRoot)"

definition viewDeclarationList :: Node where
  "viewDeclarationList =
     Node OtherKind (''const View: FC<Props> = '' @ viewArrowText) 1 3 None (Some viewStatement)"

definition viewDeclaration :: Node where
  "viewDeclaration =
     Node (VariableDeclaration ''View'') (''View: FC<Props> = '' @ viewArrowText) 1 3
       (Some (Node ArrowFunction viewArrowText 1 3 None None)) (Some viewDeclarationList)"

definition viewArrow :: Node where
  "viewArrow = Node ArrowFunction viewArrowText 1 3 None (Some viewDeclaration)"

definition viewExportToken :: Node where
  "viewExportToken = Node OtherKind ''export'' 1 1 None (Some viewStatement)"

definition viewReturnToken :: Node where
  "viewReturnToken = Node OtherKind ''return'' 2 2 None (Some viewArrow)"

definition viewFile :: SourceFile where
  "viewFile =
     \<lparr>getFilePath = ''/p/src/v.ts'', getFullText = viewText,
      getImportDeclarations = [],
      getFunctions = [], getClasses = [], getInterfaces = [], getTypeAliases = [],
      getVariableStatements = [(True, [''View''])], getDefaultExportSymbol = False,
      getDescendantAtPos =
        (\<lambda>pos. if pos < length ''export'' then Some viewExportToken
              else if pos < length viewText then Some viewReturnToken else None),
      forEachDescendant =
        [viewStatement, viewExportToken, viewDeclarationList, viewDeclaration, viewArrow,
         viewReturnToken]\<rparr>"

text \<open>The block that the mapper finds for line 2 of that file.\<close>

definition viewBlock :: "number list \<Rightarrow> CodeBlock" where
  "viewBlock ns =
     \<lparr>cb_type = BT_component, cb_name = ''View'', startLine = 1, endLine = 3,
      signature = ''const View = () => => {...}'', fullCode = viewText, changedLineNumbers = ns\<rparr>"

definition sampleImport :: "string \<Rightarrow> string list \<Rightarrow> ImportDeclaration" where
  "sampleImport specifier names =
     \<lparr>getModuleSpecifierValue = specifier, getDefaultImport = None, getNamedImports = names\<rparr>"

definition sampleA :: SourceFile where
  "sampleA =
     \<lparr>getFilePath = ''/p/src/a.ts'', getFullText = sampleText,
      getImportDeclarations = [sampleImport ''./b'' [''b'']],
      getFunctions = [(Some ''a'', True)], getClasses = [], getInterfaces = [], getTypeAliases = [],
      getVariableStatements = [], getDefaultExportSymbol = False,
      getDescendantAtPos =
        (\<lambda>pos. if pos \<le> length (importLine ''b'' ''./b'') then Some sampleImportNode
              else if pos < length sampleText then Some sampleLeaf else None),
      forEachDescendant = [sampleImportNode, sampleFunctionNode, sampleLeaf]\<rparr>"

text \<open>
  The other two files; nothing under study looks into their syntax trees, which are left
  empty.
\<close>

definition sampleB :: SourceFile where
  "sampleB =
     \<lparr>getFilePath = ''/p/src/b.ts'',
      getFullText = importLine ''c'' ''./c'' @ [newline] @ ''export function b() {}'',
      getImportDeclarations = [sampleImport ''./c'' [''c'']],
      getFunctions = [(Some ''b'', True)], getClasses = [], getInterfaces = [], getTypeAliases = [],
      getVariableStatements = [], getDefaultExportSymbol = False,
      getDescendantAtPos = (\<lambda>pos. None), forEachDescendant = []\<rparr>"

definition sampleC :: SourceFile where
  "sampleC =
     \<lparr>getFilePath = ''/p/src/c.ts'',
      getFullText = importLine ''a as x'' ''./a'' @ [newline] @ importLine ''a as y'' ''./a'' @ [newline]
                    @ ''export function c() {}'',
      getImportDeclarations = [sampleImport ''./a'' [''a''], sampleImport ''./a'' [''a'']],
      getFunctions = [(Some ''c'', True)], getClasses = [], getInterfaces = [], getTypeAliases = [],
      getVariableStatements = [], getDefaultExportSymbol = False,
      getDescendantAtPos = (\<lambda>pos. None), forEachDescendant = []\<rparr>"

definition sampleFiles :: "(string \<times> SourceFile) list" where
  "sampleFiles = [(''/p/src/a.ts'', sampleA), (''/p/src/b.ts'', sampleB), (''/p/src/c.ts'', sampleC)]"

text \<open>
  The staged changes: a rename and a copy, which git reports with the status \<^verbatim>\<open>R100\<close> and
  \<^verbatim>\<open>C75\<close>, and a modification of \<^verbatim>\<open>src/a.ts\<close> that adds its lines 3 and 4. The diff starts with the header
  lines that git prints for a file and ends with a newline.
\<close>

definition sampleNameStatus :: string where
  "sampleNameStatus =
     ''R100'' @ [tab] @ ''src/o.ts'' @ [tab] @ ''src/n.ts'' @ [newline] @
     ''C75'' @ [tab] @ ''src/b.ts'' @ [tab] @ ''src/d.ts'' @ [newline] @
     ''M'' @ [tab] @ ''src/a.ts'' @ [newline]"

text \<open>The same staged changes without the rename and the copy.\<close>

definition sampleNameStatusKept :: string where
  "sampleNameStatusKept = ''M'' @ [tab] @ ''src/a.ts'' @ [newline]"

definition diffHeader :: "string list" where
  "diffHeader =
     [''diff --git a/src/a.ts b/src/a.ts'', ''index 1111111..2222222 100644'',
      ''--- a/src/a.ts'', ''+++ b/src/a.ts'']"

definition sampleDiff :: string where
  "sampleDiff =
     join (diffHeader @ [''@@ -2,0 +3,2 @@'', ''+  // return (<p/>)'', ''+  return b();'', []]) [newline]"



definition sampleEnv :: env where
  "sampleEnv =
     \<lparr>rootPath = ''/p'',
      existsSync = (\<lambda>p. p \<in> set (map fst sampleFiles)),
      readFileSync = (\<lambda>p. map_option getFullText (map_of sampleFiles p)),
      addSourceFileAtPath = map_of sampleFiles,
      globby = map fst sampleFiles,
      path_isAbsolute = (\<lambda>p. startsWith p ''/''),
      path_join = (\<lambda>a b. a @ ''/'' @ b),
      path_relative = sample_relative,
      path_resolve = sample_resolve,
      path_dirname = sample_dirname,
      path_basename = sample_basename,
      path_extname = sample_extname,
      git_name_status = Inr sampleNameStatus,
      git_diff_U0 = (\<lambda>p. if p = ''src/a.ts'' then Some sampleDiff else None)\<rparr>"

text \<open>What \<^verbatim>\<open>analyzeImpact\<close> returns for the three files of the sample project.\<close>

definition depA :: DependencyInfo where
  "depA = \<lparr>dep_filePath = ''/p/src/a.ts'', dep_relativePath = ''src/a.ts'',
           dep_type = DT_component, dep_imports = [''a'']\<rparr>"

definition depB :: DependencyInfo where
  "depB = \<lparr>dep_filePath = ''/p/src/b.ts'', dep_relativePath = ''src/b.ts'',
           dep_type = DT_other, dep_imports = [''b'']\<rparr>"

definition depC :: DependencyInfo where
  "depC = \<lparr>dep_filePath = ''/p/src/c.ts'', dep_relativePath = ''src/c.ts'',
           dep_type = DT_other, dep_imports = [''c'']\<rparr>"

definition sampleImpactA :: ImpactAnalysis where
  "sampleImpactA =
     \<lparr>targetFile = ''/p/src/a.ts'', targetRelativePath = ''src/a.ts'',
      exports = [\<lparr>exp_name = ''a'', exp_type = ET_function, isUsedExternally = False\<rparr>],
      dependencies = [depB, depC, depA, depA],
      dependents = [\<lparr>dnt_filePath = ''/p/src/c.ts'', dnt_relativePath = ''src/c.ts'',
                      importedItems = [''a'', ''a''], usageCount = 2\<rparr>]\<rparr>"

definition sampleImpactB :: ImpactAnalysis where
  "sampleImpactB =
     \<lparr>targetFile = ''/p/src/b.ts'', targetRelativePath = ''src/b.ts'',
      exports = [\<lparr>exp_name = ''b'', exp_type = ET_function, isUsedExternally = False\<rparr>],
      dependencies = [depC, depA, depB, depA],
      dependents = [\<lparr>dnt_filePath = ''/p/src/a.ts'', dnt_relativePath = ''src/a.ts'',
                      importedItems = [''b''], usageCount = 1\<rparr>]\<rparr>"

definition sampleImpactC :: ImpactAnalysis where
  "sampleImpactC =
     \<lparr>targetFile = ''/p/src/c.ts'', targetRelativePath = ''src/c.ts'',
      exports = [\<lparr>exp_name = ''c'', exp_type = ET_function, isUsedExternally = False\<rparr>],
      dependencies = [depA, depB, depC, depA],
      dependents = [\<lparr>dnt_filePath = ''/p/src/b.ts'', dnt_relativePath = ''src/b.ts'',
                      importedItems = [''c''], usageCount = 1\<rparr>]\<rparr>"

text \<open>What \<^verbatim>\<open>analyzeStagedChanges\<close> returns for the staged changes of the sample project.\<close>

definition sampleAnalysis :: DiffAnalysis where
  "sampleAnalysis =
     \<lparr>totalFiles = 1,
      fileChanges =
        [\<lparr>fc_filePath = ''/p/src/a.ts'', fc_relativePath = ''src/a.ts'', fc_status = modified,
          changedLines =
            [\<lparr>lineNumber = Finite 3, cl_type = add, cl_content = ''  // return (<p/>)''\<rparr>,
             \<lparr>lineNumber = Finite 4, cl_type = add, cl_content = ''  return b();''\<rparr>],
          affectedBlocks = [sampleBlock [Finite 3, Finite 4]]\<rparr>],
      summary = \<lparr>sum_added = 0, sum_modified = 1, sum_deleted = 0\<rparr>\<rparr>"

text \<open>
  Three staged diffs of one hunk. Two have three lines that begin with \<^verbatim>\<open>+\<close>; in the
  second of them the first added line is \<^verbatim>\<open>++x;\<close>. The third has two added lines after a
  header whose start line is \<^verbatim>\<open>2^53 + 1\<close>.
\<close>

definition hugeStart :: string where
  "hugeStart = join (diffHeader @ [''@@ -1,0 +9007199254740993,2 @@'', ''+a'', ''+b'', []]) [newline]"

definition threeAdded :: string where
  "threeAdded = join (diffHeader @ [''@@ -10,0 +10,3 @@'', ''+a'', ''+b'', ''+c'', []]) [newline]"

definition threePlus :: string where
  "threePlus = join (diffHeader @ [''@@ -10,0 +10,3 @@'', ''+++x;'', ''+b'', ''+c'', []]) [newline]"

text \<open>
  A file for the task markers: a marker on line 1, a call with a callback arrow function
  on line 2, and a function declaration on line 4.
\<close>

definition callNode :: Node where
  "callNode = Node OtherKind ''xs.forEach(x => f(x))'' 2 2 None None"

definition callbackArrow :: Node where
  "callbackArrow = Node ArrowFunction ''x => f(x)'' 2 2 None (Some callNode)"

definition declaredFunction :: Node where
  "declaredFunction = Node (FunctionDeclaration (Some ''g'') [] ''void'' False) ''function g() {}'' 4 4 None None"

definition markerFile :: SourceFile where
  "markerFile =
     \<lparr>getFilePath = ''/p/src/m.ts'',
      getFullText = join [''// @AI-TODO speed this up'', ''xs.forEach(x => f(x));'', [], ''function g() {}'']
                      [newline],
      getImportDeclarations = [],
      getFunctions = [(Some ''g'', False)], getClasses = [], getInterfaces = [], getTypeAliases = [],
      getVariableStatements = [], getDefaultExportSymbol = False,
      getDescendantAtPos = (\<lambda>pos. None),
      forEachDescendant = [callNode, callbackArrow, declaredFunction]\<rparr>"

text \<open>A scanned file named \<^verbatim>\<open>userProfile.ts\<close> with nothing else to match.\<close>

definition userProfile :: FileAnalysis where
  "userProfile =
     \<lparr>fa_filePath = ''/p/src/userProfile.ts'', fa_relativePath = ''src/userProfile.ts'',
      fa_exports = [], fa_functions = [], fa_interfaces = []\<rparr>"


section \<open>Facts about the string primitives\<close>

lemma startsWith_Cons [simp]:
  "startsWith s (c # p) = (case s of [] \<Rightarrow> False | x # xs \<Rightarrow> x = c \<and> startsWith xs p)"
  by (cases s) (auto simp: startsWith_def)

lemma startsWith_Nil [simp]: "startsWith s []"
  by (simp add: startsWith_def)

lemma startsWith_append: "startsWith (p @ r) p"
  by (simp add: startsWith_def)

lemma stripPrefix_append: "stripPrefix p (p @ r) = Some r"
  by (simp add: stripPrefix_def startsWith_def)

lemma isDigit_digitChar: "d < 10 \<Longrightarrow> isDigit (digitChar d)"
proof -
  assume "d < 10"
  then have "d \<in> {0, 1, 2, 3, 4, 5, 6, 7, 8, 9}" by auto
  then show ?thesis by (auto simp: isDigit_def digitChar_def)
qed

lemma digitValue_digitChar: "d < 10 \<Longrightarrow> digitValue (digitChar d) = d"
proof -
  assume "d < 10"
  then have "d \<in> {0, 1, 2, 3, 4, 5, 6, 7, 8, 9}" by auto
  then show ?thesis by (auto simp: digitValue_def digitChar_def)
qed

lemma toString_digits: "c \<in> set (toString n) \<Longrightarrow> isDigit c"
proof (induction n arbitrary: c rule: toString.induct)
  case (1 n)
  show ?case
  proof (cases "n < 10")
    case True
    with "1.prems" show ?thesis by (simp add: toString.simps[of n] isDigit_digitChar)
  next
    case False
    with "1.prems" "1.IH" show ?thesis
      by (auto simp: toString.simps[of n] isDigit_digitChar)
  qed
qed

lemma toString_nonempty: "toString n \<noteq> []"
  by (subst toString.simps) simp

lemma mathInt_snoc: "mathInt (ds @ [c]) = 10 * mathInt ds + digitValue c"
  by (simp add: mathInt_def)

lemma mathInt_toString: "mathInt (toString n) = n"
proof (induction n rule: toString.induct)
  case (1 n)
  show ?case
  proof (cases "n < 10")
    case True
    then show ?thesis by (simp add: toString.simps[of n] mathInt_def digitValue_digitChar)
  next
    case False
    with "1.IH" show ?thesis
      by (simp add: toString.simps[of n] mathInt_snoc digitValue_digitChar)
  qed
qed

lemma bitLength_le: "bitLength n \<le> k \<longleftrightarrow> n < 2 ^ k"
proof (induction k arbitrary: n)
  case 0
  show ?case by (subst bitLength.simps) simp
next
  case (Suc k)
  have "bitLength n \<le> Suc k \<longleftrightarrow> n = 0 \<or> bitLength (n div 2) \<le> k"
    by (subst bitLength.simps) simp
  also have "\<dots> \<longleftrightarrow> n = 0 \<or> n div 2 < 2 ^ k" by (simp add: Suc.IH)
  also have "\<dots> \<longleftrightarrow> n < 2 ^ Suc k" by auto
  finally show ?case .
qed

lemma bitLength_numeral: "bitLength (numeral k) = Suc (bitLength (numeral k div 2))"
  by (simp add: bitLength.simps[of "numeral k"])

lemma bitLength_0: "bitLength 0 = 0"
  by (simp add: bitLength.simps[of 0])

lemma bitLength_1: "bitLength (Suc 0) = 1"
  by (simp add: bitLength.simps[of "Suc 0"] bitLength_0)

lemmas bitLength_eval = bitLength_numeral bitLength_0 bitLength_1

lemma toNumber_exact: "n < 2 ^ 53 \<Longrightarrow> toNumber n = Finite n"
  by (simp add: toNumber_def bitLength_le)

lemma toNumber_2_53: "toNumber (2 ^ 53) = Finite (2 ^ 53)"
  by (simp add: toNumber_def Let_def bitLength_eval)

lemma toNumber_beyond: "toNumber 9007199254740993 = Finite 9007199254740992"
  by (simp add: toNumber_def Let_def bitLength_eval)

lemma increment_exact: "n < 2 ^ 53 \<Longrightarrow> increment (Finite n) = Finite (n + 1)"
proof -
  assume "n < 2 ^ 53"
  then have "n + 1 < 2 ^ 53 \<or> n + 1 = 2 ^ 53" by auto
  then have "toNumber (n + 1) = Finite (n + 1)"
    using toNumber_exact[of "n + 1"] toNumber_2_53 by auto
  then show ?thesis by (simp add: increment_def)
qed

lemma parseInt_toString: "n < 2 ^ 53 \<Longrightarrow> parseInt (toString n) = Finite n"
  by (simp add: parseInt_def mathInt_toString toNumber_exact)

lemma digits1_toString: "\<not> isDigit c \<Longrightarrow> digits1 (toString n @ c # r) = Some (toString n, c # r)"
  by (simp add: digits1_def takeWhile_append2 dropWhile_append2 toString_digits toString_nonempty)

lemma split_append: "c \<notin> set a \<Longrightarrow> split (a @ c # r) c = a # split r c"
  by (induction a) auto

lemma split_none: "c \<notin> set a \<Longrightarrow> split a c = [a]"
  by (induction a) auto

lemma split4:
  assumes "c \<notin> set h" "c \<notin> set x" "c \<notin> set y" "c \<notin> set z"
  shows "split (h @ c # x @ c # y @ c # z) c = [h, x, y, z]"
  using assms by (simp add: split_append split_none)

section \<open>The change extractor\<close>

lemma hunkMatch_plus: "hunkMatch (CHR ''+'' # r) = None"
  by (simp add: hunkMatch_def stripPrefix_def)

lemma hunkMatch_minus: "hunkMatch (CHR ''-'' # r) = None"
  by (simp add: hunkMatch_def stripPrefix_def)

lemma hunkMatch_space: "hunkMatch (CHR '' '' # r) = None"
  by (simp add: hunkMatch_def stripPrefix_def)

lemma diffStep_added:
  "startsWith line ''+'' \<Longrightarrow> \<not> startsWith line ''+++'' \<Longrightarrow>
   diffStep (cur, acc) line =
     (increment cur, acc @ [\<lparr>lineNumber = cur, cl_type = add, cl_content = drop 1 line\<rparr>])"
  by (cases line) (auto simp: diffStep_def hunkMatch_plus split: list.splits)

lemma diffStep_deleted:
  "startsWith line ''-'' \<Longrightarrow> \<not> startsWith line ''---'' \<Longrightarrow>
   diffStep (cur, acc) line =
     (cur, acc @ [\<lparr>lineNumber = cur, cl_type = delete, cl_content = drop 1 line\<rparr>])"
  by (cases line) (auto simp: diffStep_def hunkMatch_minus split: list.splits)

lemma diffStep_context:
  "startsWith line '' '' \<Longrightarrow> diffStep (cur, acc) line = (increment cur, acc)"
  by (cases line) (auto simp: diffStep_def hunkMatch_space split: list.splits)

lemma optCount_optComma: "optCount (optComma c @ CHR '' '' # r) = CHR '' '' # r"
  by (cases c) (simp_all add: optComma_def optCount_def digits1_toString isDigit_def)

lemma hunkMatch_header:
  "hunkMatch (''@@ -'' @ toString old @ optComma oc @ '' +'' @ toString new @ optComma nc @ '' @@'' @ rest)
     = Some (toString new)"
proof -
  have nd: "\<not> isDigit (CHR '' '')" "\<not> isDigit (CHR '','')" by (simp_all add: isDigit_def)
  have d1: "digits1 (toString old @ optComma oc @ '' +'' @ toString new @ optComma nc @ '' @@'' @ rest)
      = Some (toString old, optComma oc @ '' +'' @ toString new @ optComma nc @ '' @@'' @ rest)"
    by (cases oc) (simp_all add: optComma_def digits1_toString nd)
  have d2: "digits1 (toString new @ optComma nc @ '' @@'' @ rest)
      = Some (toString new, optComma nc @ '' @@'' @ rest)"
    by (cases nc) (simp_all add: optComma_def digits1_toString nd)
  have o1: "optCount (optComma oc @ '' +'' @ toString new @ optComma nc @ '' @@'' @ rest)
      = '' +'' @ toString new @ optComma nc @ '' @@'' @ rest"
    using optCount_optComma[of oc] by simp
  have o2: "optCount (optComma nc @ '' @@'' @ rest) = '' @@'' @ rest"
    using optCount_optComma[of nc] by simp
  show ?thesis
    unfolding hunkMatch_def stripPrefix_append d1 option.case prod.case o1 d2 o2
    by (simp only: startsWith_append if_True)
qed

lemma diffStep_header:
  "new < 2 ^ 53 \<Longrightarrow>
   diffStep (cur, acc)
     (''@@ -'' @ toString old @ optComma oc @ '' +'' @ toString new @ optComma nc @ '' @@'' @ rest)
     = (Finite new, acc)"
  unfolding diffStep_def prod.case hunkMatch_header option.case by (simp add: parseInt_toString)

lemma hunkMatch_10: "hunkMatch ''@@ -10,0 +10,3 @@'' = Some ''10''"
  by (simp add: hunkMatch_def stripPrefix_def digits1_def isDigit_def optCount_def)

lemma parseInt_10: "parseInt ''10'' = Finite 10"
  by (simp add: parseInt_def mathInt_def digitValue_def toNumber_exact)

lemma silent_step: "silent l \<Longrightarrow> snd (diffStep (cur, acc) l) = acc"
  by (cases "hunkMatch l") (auto simp: diffStep_def silent_def)

lemma silent_fold: "list_all silent ls \<Longrightarrow> snd (foldl diffStep (cur, acc) ls) = acc"
proof (induction ls arbitrary: cur)
  case Nil
  then show ?case by simp
next
  case (Cons l ls)
  obtain cur' acc' where st: "diffStep (cur, acc) l = (cur', acc')"
    by (cases "diffStep (cur, acc) l")
  with Cons.prems silent_step[of l cur acc] have "acc' = acc" by simp
  with Cons st show ?case by simp
qed

lemma parseDiff_three_added:
  assumes ls: "split stdout newline =
                 pre @ [''@@ -10,0 +10,3 @@'', CHR ''+'' # a, CHR ''+'' # b, CHR ''+'' # c] @ post"
      and sl: "list_all silent pre" "list_all silent post"
      and np: "\<not> startsWith a ''++''" "\<not> startsWith b ''++''" "\<not> startsWith c ''++''"
  shows "parseDiff stdout
     = [\<lparr>lineNumber = Finite 10, cl_type = add, cl_content = a\<rparr>,
        \<lparr>lineNumber = Finite 11, cl_type = add, cl_content = b\<rparr>,
        \<lparr>lineNumber = Finite 12, cl_type = add, cl_content = c\<rparr>]"
proof -
  obtain c0 acc0 where pre: "foldl diffStep (Finite 0, []) pre = (c0, acc0)"
    by (cases "foldl diffStep (Finite 0, []) pre")
  with silent_fold[OF sl(1), of "Finite 0" "[]"] have acc0: "acc0 = []" by simp
  have st0: "diffStep (c0, []) ''@@ -10,0 +10,3 @@'' = (Finite 10, [])"
    by (simp add: diffStep_def hunkMatch_10 parseInt_10)
  have inc: "increment (Finite 10) = Finite 11" "increment (Finite 11) = Finite 12"
    "increment (Finite 12) = Finite 13"
    by (simp_all add: increment_def toNumber_exact)
  have sa: "diffStep (n, acc) (CHR ''+'' # a)
      = (increment n, acc @ [\<lparr>lineNumber = n, cl_type = add, cl_content = a\<rparr>])" for n acc
    using np(1) diffStep_added[of "CHR ''+'' # a" n acc] by simp
  have sb: "diffStep (n, acc) (CHR ''+'' # b)
      = (increment n, acc @ [\<lparr>lineNumber = n, cl_type = add, cl_content = b\<rparr>])" for n acc
    using np(2) diffStep_added[of "CHR ''+'' # b" n acc] by simp
  have sc: "diffStep (n, acc) (CHR ''+'' # c)
      = (increment n, acc @ [\<lparr>lineNumber = n, cl_type = add, cl_content = c\<rparr>])" for n acc
    using np(3) diffStep_added[of "CHR ''+'' # c" n acc] by simp
  have "foldl diffStep (Finite 0, []) (split stdout newline) =
      foldl diffStep (Finite 13,
        [\<lparr>lineNumber = Finite 10, cl_type = add, cl_content = a\<rparr>,
         \<lparr>lineNumber = Finite 11, cl_type = add, cl_content = b\<rparr>,
         \<lparr>lineNumber = Finite 12, cl_type = add, cl_content = c\<rparr>]) post"
    unfolding ls by (simp add: pre acc0 st0 sa sb sc inc)
  then show ?thesis
    unfolding parseDiff_def using silent_fold[OF sl(2)] by simp
qed

text \<open>
  C4, as the claim states it, fails in two ways. In a staged diff whose one hunk has the
  header \<^verbatim>\<open>@@ -10,0 +10,3 @@\<close> followed by three lines that begin with \<^verbatim>\<open>+\<close>, the first of
  them the added line \<^verbatim>\<open>++x;\<close>, the changed lines are 10 and 11 only, because a line that
  begins with \<^verbatim>\<open>+++\<close> is skipped. And the cursor is a double: after the header
  \<^verbatim>\<open>@@ -1,0 +9007199254740993,2 @@\<close> it is not the start line \<^verbatim>\<open>2^53 + 1\<close> of the header but
  \<^verbatim>\<open>2^53\<close>, and it does not advance on an added line, so both added lines get the line
  number \<^verbatim>\<open>2^53\<close>.
\<close>

theorem three_plus_lines_counterexample:
  "git_diff_U0 (sampleEnv\<lparr>git_diff_U0 := (\<lambda>p. Some threePlus)\<rparr>) ''src/a.ts'' = Some threePlus
   \<and> split threePlus newline =
       [''diff --git a/src/a.ts b/src/a.ts'', ''index 1111111..2222222 100644'',
        ''--- a/src/a.ts'', ''+++ b/src/a.ts'',
        ''@@ -10,0 +10,3 @@'', ''+++x;'', ''+b'', ''+c'', []]
   \<and> startsWith ''+++x;'' ''+'' \<and> startsWith ''+b'' ''+'' \<and> startsWith ''+c'' ''+''
   \<and> map lineNumber (getChangedLines (sampleEnv\<lparr>git_diff_U0 := (\<lambda>p. Some threePlus)\<rparr>) ''src/a.ts'')
       = [Finite 10, Finite 11]
   \<and> split hugeStart newline =
       [''diff --git a/src/a.ts b/src/a.ts'', ''index 1111111..2222222 100644'',
        ''--- a/src/a.ts'', ''+++ b/src/a.ts'',
        ''@@ -1,0 +9007199254740993,2 @@'', ''+a'', ''+b'', []]
   \<and> getChangedLines (sampleEnv\<lparr>git_diff_U0 := (\<lambda>p. Some hugeStart)\<rparr>) ''src/a.ts''
       = [\<lparr>lineNumber = Finite 9007199254740992, cl_type = add, cl_content = ''a''\<rparr>,
          \<lparr>lineNumber = Finite 9007199254740992, cl_type = add, cl_content = ''b''\<rparr>]"
  proof -
  have 1: "git_diff_U0 (sampleEnv\<lparr>git_diff_U0 := (\<lambda>p. Some threePlus)\<rparr>) ''src/a.ts'' = Some threePlus"
    by simp
  have 2: "split threePlus newline =
       [''diff --git a/src/a.ts b/src/a.ts'', ''index 1111111..2222222 100644'',
        ''--- a/src/a.ts'', ''+++ b/src/a.ts'',
        ''@@ -10,0 +10,3 @@'', ''+++x;'', ''+b'', ''+c'', []]"
    by code_simp
  have 3: "startsWith ''+++x;'' ''+'' \<and> startsWith ''+b'' ''+'' \<and> startsWith ''+c'' ''+''"
    by simp
  have 4: "map lineNumber (getChangedLines (sampleEnv\<lparr>git_diff_U0 := (\<lambda>p. Some threePlus)\<rparr>) ''src/a.ts'')
       = [Finite 10, Finite 11]"
    by code_simp
  have 5: "split hugeStart newline =
       [''diff --git a/src/a.ts b/src/a.ts'', ''index 1111111..2222222 100644'',
        ''--- a/src/a.ts'', ''+++ b/src/a.ts'',
        ''@@ -1,0 +9007199254740993,2 @@'', ''+a'', ''+b'', []]"
    by code_simp
  have h: "hunkMatch ''diff --git a/src/a.ts b/src/a.ts'' = None"
    "hunkMatch ''index 1111111..2222222 100644'' = None"
    "hunkMatch ''--- a/src/a.ts'' = None" "hunkMatch ''+++ b/src/a.ts'' = None"
    "hunkMatch ''@@ -1,0 +9007199254740993,2 @@'' = Some ''9007199254740993''"
    "hunkMatch ''+a'' = None" "hunkMatch ''+b'' = None" "hunkMatch [] = None"
    by code_simp+
  have m: "mathInt ''9007199254740993'' = 9007199254740993"
    by (simp add: mathInt_def digitValue_def)
  have p: "parseInt ''9007199254740993'' = Finite 9007199254740992"
    by (simp add: parseInt_def m toNumber_beyond)
  have i: "increment (Finite 9007199254740992) = Finite 9007199254740992"
    by (simp add: increment_def toNumber_beyond)
  have 6: "getChangedLines (sampleEnv\<lparr>git_diff_U0 := (\<lambda>p. Some hugeStart)\<rparr>) ''src/a.ts''
       = [\<lparr>lineNumber = Finite 9007199254740992, cl_type = add, cl_content = ''a''\<rparr>,
          \<lparr>lineNumber = Finite 9007199254740992, cl_type = add, cl_content = ''b''\<rparr>]"
    by (simp add: getChangedLines_def parseDiff_def 5 diffStep_def h p i)
  from 1 2 3 4 5 6 show ?thesis by blast
qed

text \<open>
  C4 (amended): when the lines of a staged diff are the hunk header \<^verbatim>\<open>@@ -10,0 +10,3 @@\<close>
  followed by three lines that begin with \<^verbatim>\<open>+\<close> but not with \<^verbatim>\<open>+++\<close>, with before and
  after them only lines that record no event (the file header, the empty last line), the
  changed lines are exactly 10, 11 and 12, each of type add.
  In general, for line numbers below \<^verbatim>\<open>2^53\<close>: a hunk header
  \<^verbatim>\<open>@@ -<old>[,<n>] +<new>[,<m>] @@\<close> sets the cursor to \<^verbatim>\<open><new>\<close>; a line that begins with
  \<^verbatim>\<open>+\<close> but not \<^verbatim>\<open>+++\<close> is recorded as added at the cursor and advances it; a line that
  begins with \<^verbatim>\<open>-\<close> but not \<^verbatim>\<open>---\<close> is recorded as deleted at the cursor and does not advance
  it (for every cursor); a line that begins with a space advances the cursor and records
  nothing.
\<close>

theorem changed_lines_of_hunk:
  assumes "git_diff_U0 e p = Some stdout"
      and "split stdout newline =
             pre @ [''@@ -10,0 +10,3 @@'', CHR ''+'' # a, CHR ''+'' # b, CHR ''+'' # c] @ post"
      and "list_all silent pre" and "list_all silent post"
      and "\<not> startsWith a ''++''" "\<not> startsWith b ''++''" "\<not> startsWith c ''++''"
  shows "getChangedLines e p =
           [\<lparr>lineNumber = Finite 10, cl_type = add, cl_content = a\<rparr>,
            \<lparr>lineNumber = Finite 11, cl_type = add, cl_content = b\<rparr>,
            \<lparr>lineNumber = Finite 12, cl_type = add, cl_content = c\<rparr>]
    \<and> (new < 2 ^ 53 \<longrightarrow>
         diffStep (cur, acc)
           (''@@ -'' @ toString old @ optComma oc @ '' +'' @ toString new @ optComma nc @ '' @@'' @ rest)
           = (Finite new, acc))
    \<and> (n < 2 ^ 53 \<and> startsWith addedLine ''+'' \<and> \<not> startsWith addedLine ''+++'' \<longrightarrow>
         diffStep (Finite n, acc) addedLine =
           (Finite (n + 1),
            acc @ [\<lparr>lineNumber = Finite n, cl_type = add, cl_content = drop 1 addedLine\<rparr>]))
    \<and> (startsWith deletedLine ''-'' \<and> \<not> startsWith deletedLine ''---'' \<longrightarrow>
         diffStep (cur, acc) deletedLine =
           (cur, acc @ [\<lparr>lineNumber = cur, cl_type = delete, cl_content = drop 1 deletedLine\<rparr>]))
    \<and> (n < 2 ^ 53 \<and> startsWith contextLine '' '' \<longrightarrow>
         diffStep (Finite n, acc) contextLine = (Finite (n + 1), acc))"
proof -
  have "getChangedLines e p =
           [\<lparr>lineNumber = Finite 10, cl_type = add, cl_content = a\<rparr>,
            \<lparr>lineNumber = Finite 11, cl_type = add, cl_content = b\<rparr>,
            \<lparr>lineNumber = Finite 12, cl_type = add, cl_content = c\<rparr>]"
    unfolding getChangedLines_def assms(1) option.case
    by (rule parseDiff_three_added[OF assms(2-7)])
  moreover have "new < 2 ^ 53 \<longrightarrow> diffStep (cur, acc)
        (''@@ -'' @ toString old @ optComma oc @ '' +'' @ toString new @ optComma nc @ '' @@'' @ rest)
        = (Finite new, acc)"
    using diffStep_header by blast
  moreover have "n < 2 ^ 53 \<and> startsWith addedLine ''+'' \<and> \<not> startsWith addedLine ''+++'' \<longrightarrow>
         diffStep (Finite n, acc) addedLine =
           (Finite (n + 1),
            acc @ [\<lparr>lineNumber = Finite n, cl_type = add, cl_content = drop 1 addedLine\<rparr>])"
    using diffStep_added[of addedLine "Finite n" acc] increment_exact[of n] by simp
  moreover have "n < 2 ^ 53 \<and> startsWith contextLine '' '' \<longrightarrow>
         diffStep (Finite n, acc) contextLine = (Finite (n + 1), acc)"
    using diffStep_context[of contextLine "Finite n" acc] increment_exact[of n] by simp
  ultimately show ?thesis
    using diffStep_deleted[of deletedLine cur acc] by blast
qed

theorem changed_lines_of_hunk_witness:
  "getChangedLines (sampleEnv\<lparr>git_diff_U0 := (\<lambda>p. Some threeAdded)\<rparr>) ''src/a.ts'' =
     [\<lparr>lineNumber = Finite 10, cl_type = add, cl_content = ''a''\<rparr>,
      \<lparr>lineNumber = Finite 11, cl_type = add, cl_content = ''b''\<rparr>,
      \<lparr>lineNumber = Finite 12, cl_type = add, cl_content = ''c''\<rparr>]
   \<and> diffStep (Finite 7, []) ''@@ -3,2 +5 @@ f'' = (Finite 5, [])
   \<and> diffStep (Finite 7, []) ''+x'' = (Finite 8, [\<lparr>lineNumber = Finite 7, cl_type = add, cl_content = ''x''\<rparr>])
   \<and> diffStep (Finite 7, []) ''-y'' = (Finite 7, [\<lparr>lineNumber = Finite 7, cl_type = delete, cl_content = ''y''\<rparr>])
   \<and> diffStep (Finite 7, []) '' z'' = (Finite 8, [])"
proof -
  have h1: "git_diff_U0 (sampleEnv\<lparr>git_diff_U0 := (\<lambda>p. Some threeAdded)\<rparr>) ''src/a.ts'' = Some threeAdded"
    by simp
  have h2: "split threeAdded newline =
      diffHeader @ [''@@ -10,0 +10,3 @@'', CHR ''+'' # ''a'', CHR ''+'' # ''b'', CHR ''+'' # ''c''] @ [[]]"
    by code_simp
  have h3: "list_all silent diffHeader" "list_all silent [[]]"
    by code_simp+
  have h4: "\<not> startsWith ''a'' ''++''" "\<not> startsWith ''b'' ''++''" "\<not> startsWith ''c'' ''++''"
    by simp_all
  have s: "toString 3 = ''3''" "toString 5 = ''5''" "optComma (Some 2) = '',2''" "optComma None = []"
    by code_simp+
  have b: "(5::nat) < 2 ^ 53" "(7::nat) < 2 ^ 53" by simp_all
  have p: "startsWith ''+x'' ''+'' \<and> \<not> startsWith ''+x'' ''+++''"
    "startsWith ''-y'' ''-'' \<and> \<not> startsWith ''-y'' ''---''" "startsWith '' z'' '' ''"
    by simp_all
  show ?thesis
    using changed_lines_of_hunk[OF h1 h2 h3 h4, of 5 "Finite 7" "[]" 3 "Some 2" None "'' f''" 7 "''+x''"
        "''-y''" "'' z''"]
    using s b p by simp
qed

section \<open>The forward traversal\<close>

lemma log_erase:
  "fst (analyzeDependenciesLog e sf depth maxDepth visited trace)
     = analyzeDependencies e sf depth maxDepth visited"
  "fst (importsLoopLog e fp depth maxDepth decls deps visited trace)
     = importsLoop e fp depth maxDepth decls deps visited"
proof (induction e sf depth maxDepth visited trace and e fp depth maxDepth decls deps visited trace
       rule: analyzeDependenciesLog_importsLoopLog.induct)
  case (1 e sourceFile depth maxDepth visited trace)
  then show ?case
    by (simp add: analyzeDependenciesLog.simps[of e sourceFile] analyzeDependencies.simps[of e sourceFile])
next
  case (2 e filePath depth maxDepth deps visited trace)
  then show ?case by simp
next
  case (3 e filePath depth maxDepth importDecl rest deps visited trace)
  show ?case
  proof (cases "edgeOf e filePath importDecl")
    case None
    with "3.IH"(1) show ?thesis by simp
  next
    case (Some r)
    note edge = Some
    show ?thesis
    proof (cases r)
      case (Inl err)
      with edge show ?thesis by simp
    next
      case (Inr dep)
      note r = Inr
      show ?thesis
      proof (cases "depth < maxDepth")
        case False
        with edge r "3.IH"(4) show ?thesis by simp
      next
        case True
        show ?thesis
        proof (cases "addSourceFileAtPath e (dep_filePath dep)")
          case None
          with edge r True show ?thesis by simp
        next
          case (Some dsf)
          note dsf = Some
          obtain res tr where
            sub: "analyzeDependenciesLog e dsf (depth + 1) maxDepth visited trace = (res, tr)"
            by (cases "analyzeDependenciesLog e dsf (depth + 1) maxDepth visited trace")
          have e1: "analyzeDependencies e dsf (depth + 1) maxDepth visited = res"
            using "3.IH"(2)[OF edge r True dsf] sub by simp
          show ?thesis
          proof (cases res)
            case (Inl err)
            with edge r True dsf sub e1 show ?thesis by simp
          next
            case (Inr sv)
            obtain sb v' where sv: "sv = (sb, v')" by (cases sv)
            have "fst (importsLoopLog e filePath depth maxDepth rest (deps @ [dep] @ sb) v' tr)
                = importsLoop e filePath depth maxDepth rest (deps @ [dep] @ sb) v'"
              using "3.IH"(3)[OF edge r True dsf sub[symmetric] Inr sv[symmetric]] .
            with edge r True dsf sub e1 Inr sv show ?thesis by simp
          qed
        qed
      qed
    qed
  qed
qed

text \<open>
  What the traversal keeps true: the visited set is the list of logged files, no file is
  logged twice, and no logged depth is beyond the bound.
\<close>

lemma log_invariant:
  "visited = map fst trace \<Longrightarrow> distinct visited \<Longrightarrow> (\<forall>x \<in> set trace. snd x \<le> maxDepth) \<Longrightarrow>
     distinct (map fst (snd (analyzeDependenciesLog e sf depth maxDepth visited trace))) \<and>
     (\<forall>x \<in> set (snd (analyzeDependenciesLog e sf depth maxDepth visited trace)). snd x \<le> maxDepth) \<and>
     (\<forall>ds v'. fst (analyzeDependenciesLog e sf depth maxDepth visited trace) = Inr (ds, v') \<longrightarrow>
        v' = map fst (snd (analyzeDependenciesLog e sf depth maxDepth visited trace)))"
  "visited = map fst trace \<Longrightarrow> distinct visited \<Longrightarrow> (\<forall>x \<in> set trace. snd x \<le> maxDepth) \<Longrightarrow>
     distinct (map fst (snd (importsLoopLog e fp depth maxDepth decls deps visited trace))) \<and>
     (\<forall>x \<in> set (snd (importsLoopLog e fp depth maxDepth decls deps visited trace)). snd x \<le> maxDepth) \<and>
     (\<forall>ds v'. fst (importsLoopLog e fp depth maxDepth decls deps visited trace) = Inr (ds, v') \<longrightarrow>
        v' = map fst (snd (importsLoopLog e fp depth maxDepth decls deps visited trace)))"
proof (induction e sf depth maxDepth visited trace and e fp depth maxDepth decls deps visited trace
       rule: analyzeDependenciesLog_importsLoopLog.induct)
  case (1 e sourceFile depth maxDepth visited trace)
  show ?case
  proof (cases "depth > maxDepth \<or> getFilePath sourceFile \<in> set visited")
    case True
    with "1.prems" show ?thesis
      by (auto simp: analyzeDependenciesLog.simps[of e sourceFile])
  next
    case False
    then have g: "\<not> maxDepth < depth" "getFilePath sourceFile \<notin> set visited" by auto
    have eq: "analyzeDependenciesLog e sourceFile depth maxDepth visited trace =
        importsLoopLog e (getFilePath sourceFile) depth maxDepth (getImportDeclarations sourceFile) []
          (visited @ [getFilePath sourceFile]) (trace @ [(getFilePath sourceFile, depth)])"
      using g by (simp add: analyzeDependenciesLog.simps[of e sourceFile])
    have "visited @ [getFilePath sourceFile] = map fst (trace @ [(getFilePath sourceFile, depth)])"
      using "1.prems"(1) by simp
    moreover have "distinct (visited @ [getFilePath sourceFile])"
      using "1.prems"(2) g(2) by simp
    moreover have "\<forall>x \<in> set (trace @ [(getFilePath sourceFile, depth)]). snd x \<le> maxDepth"
      using "1.prems"(3) g(1) by auto
    ultimately show ?thesis
      unfolding eq by (rule "1.IH"[OF g])
  qed
next
  case (2 e filePath depth maxDepth deps visited trace)
  then show ?case by simp
next
  case (3 e filePath depth maxDepth importDecl rest deps visited trace)
  show ?case
  proof (cases "edgeOf e filePath importDecl")
    case None
    with "3.IH"(1)[OF None "3.prems"] show ?thesis by simp
  next
    case (Some r)
    note edge = Some
    show ?thesis
    proof (cases r)
      case (Inl err)
      with edge "3.prems" show ?thesis by simp
    next
      case (Inr dep)
      note r = Inr
      show ?thesis
      proof (cases "depth < maxDepth")
        case False
        with edge r "3.IH"(4)[OF edge r False "3.prems"] show ?thesis by simp
      next
        case True
        show ?thesis
        proof (cases "addSourceFileAtPath e (dep_filePath dep)")
          case None
          with edge r True "3.prems" show ?thesis by simp
        next
          case (Some dsf)
          note dsf = Some
          obtain res tr where
            sub: "analyzeDependenciesLog e dsf (depth + 1) maxDepth visited trace = (res, tr)"
            by (cases "analyzeDependenciesLog e dsf (depth + 1) maxDepth visited trace")
          have ih: "distinct (map fst tr) \<and> (\<forall>x \<in> set tr. snd x \<le> maxDepth) \<and>
              (\<forall>ds v'. res = Inr (ds, v') \<longrightarrow> v' = map fst tr)"
            using "3.IH"(2)[OF edge r True dsf "3.prems"] sub by simp
          show ?thesis
          proof (cases res)
            case (Inl err)
            with edge r True dsf sub ih show ?thesis by simp
          next
            case (Inr sv)
            obtain sb v' where sv: "sv = (sb, v')" by (cases sv)
            have v': "v' = map fst tr" "distinct v'" "\<forall>x \<in> set tr. snd x \<le> maxDepth"
              using ih Inr sv by auto
            show ?thesis
              using "3.IH"(3)[OF edge r True dsf sub[symmetric] Inr sv[symmetric] v']
                edge r True dsf sub Inr sv by simp
          qed
        qed
      qed
    qed
  qed
qed

text \<open>
  C3: the forward traversal of one query is a total function (its termination is proved
  with the definition, from the depth bound alone, so it ends on every project, cyclic or
  not). The traversal that \<^verbatim>\<open>analyzeImpact\<close> starts reads the imports of no file twice, and of
  no file at a depth beyond 3: in the log of the calls that get past both guards the files
  are distinct and every depth is at most 3. Erasing the log gives the traversal itself.
\<close>

theorem forward_traversal_bounded:
  "fst (analyzeDependenciesLog e sf 0 defaultMaxDepth [] []) = analyzeDependencies e sf 0 defaultMaxDepth []
   \<and> distinct (map fst (snd (analyzeDependenciesLog e sf 0 defaultMaxDepth [] [])))
   \<and> (\<forall>x \<in> set (snd (analyzeDependenciesLog e sf 0 defaultMaxDepth [] [])). snd x \<le> 3)"
  using log_invariant(1)[of "[]" "[]" defaultMaxDepth e sf 0]
    log_erase(1)[of e sf 0 defaultMaxDepth "[]" "[]"]
  by (simp add: defaultMaxDepth_def)

lemma sample_trace:
  "analyzeDependenciesLog sampleEnv sampleA 0 defaultMaxDepth [] [] =
     (Inr ([depB, depC, depA, depA], [''/p/src/a.ts'', ''/p/src/b.ts'', ''/p/src/c.ts'']),
      [(''/p/src/a.ts'', 0), (''/p/src/b.ts'', 1), (''/p/src/c.ts'', 2)])"
  by code_simp

theorem forward_traversal_bounded_witness:
  "analyzeDependencies sampleEnv sampleA 0 defaultMaxDepth [] =
     Inr ([depB, depC, depA, depA], [''/p/src/a.ts'', ''/p/src/b.ts'', ''/p/src/c.ts''])
   \<and> snd (analyzeDependenciesLog sampleEnv sampleA 0 defaultMaxDepth [] []) =
       [(''/p/src/a.ts'', 0), (''/p/src/b.ts'', 1), (''/p/src/c.ts'', 2)]
   \<and> distinct [''/p/src/a.ts'', ''/p/src/b.ts'', ''/p/src/c.ts'']
   \<and> list_all (\<lambda>x. snd x \<le> 3) [(''/p/src/a.ts'', 0::nat), (''/p/src/b.ts'', 1), (''/p/src/c.ts'', 2)]"
  using forward_traversal_bounded[of sampleEnv sampleA] unfolding sample_trace by simp

section \<open>The reverse scan\<close>

lemma named_fold:
  "foldl (\<lambda>(is, c) named. (is @ [named], Suc c)) (i0, c0) names = (i0 @ names, c0 + length names)"
  by (induction names arbitrary: i0 c0) auto

lemma scanImport_step:
  "scanImport e file t (items, c) decl =
     (if resolveImportPath e (path_dirname e file) (getModuleSpecifierValue decl) = Some t
      then (items @ importNames decl, c + length (importNames decl)) else (items, c))"
  by (auto simp: scanImport_def named_fold importNames_def split: option.splits)

lemma scanImport_fold:
  "foldl (scanImport e file t) (items, c) decls =
     (items @ importedFrom e file t decls, c + length (importedFrom e file t decls))"
  by (induction decls arbitrary: items c) (auto simp: scanImport_step importedFrom_def)

lemma dependentsLoop_sound:
  "dependentsLoop e t files acc = Inr r \<Longrightarrow> x \<in> set r \<Longrightarrow>
     x \<in> set acc \<or>
     (dnt_filePath x \<in> set files \<and> dnt_filePath x \<noteq> t \<and>
      (\<exists>sf. addSourceFileAtPath e (dnt_filePath x) = Some sf \<and>
            importedItems x = importedFrom e (dnt_filePath x) t (getImportDeclarations sf)) \<and>
      importedItems x \<noteq> [] \<and> usageCount x = length (importedItems x))"
proof (induction files arbitrary: acc)
  case Nil
  then show ?case by simp
next
  case (Cons f fs)
  show ?case
  proof (cases "f = t")
    case True
    with Cons.prems Cons.IH[of acc] show ?thesis by auto
  next
    case False
    show ?thesis
    proof (cases "addSourceFileAtPath e f")
      case None
      with False Cons.prems show ?thesis by simp
    next
      case (Some sf)
      show ?thesis
      proof (cases "importedFrom e f t (getImportDeclarations sf) = []")
        case True
        with False Some Cons.prems Cons.IH[of acc] show ?thesis
          by (auto simp: scanImport_fold)
      next
        case nonempty: False
        let ?rec = "\<lparr>dnt_filePath = f, dnt_relativePath = path_relative e (rootPath e) f,
                      importedItems = importedFrom e f t (getImportDeclarations sf),
                      usageCount = length (importedFrom e f t (getImportDeclarations sf))\<rparr>"
        have "dependentsLoop e t fs (acc @ [?rec]) = Inr r"
          using False Some nonempty Cons.prems(1) by (simp add: scanImport_fold)
        from Cons.IH[OF this Cons.prems(2)] show ?thesis
          using False Some nonempty by auto
      qed
    qed
  qed
qed

lemma dependentsLoop_complete:
  "dependentsLoop e t files acc = Inr r \<Longrightarrow>
     set acc \<subseteq> set r \<and>
     (\<forall>file sf. file \<in> set files \<longrightarrow> file \<noteq> t \<longrightarrow> addSourceFileAtPath e file = Some sf \<longrightarrow>
        importedFrom e file t (getImportDeclarations sf) \<noteq> [] \<longrightarrow>
        (\<exists>x \<in> set r. dnt_filePath x = file \<and>
           importedItems x = importedFrom e file t (getImportDeclarations sf)))"
proof (induction files arbitrary: acc)
  case Nil
  then show ?case by simp
next
  case (Cons f fs)
  show ?case
  proof (cases "f = t")
    case True
    with Cons.prems Cons.IH[of acc] show ?thesis by auto
  next
    case False
    show ?thesis
    proof (cases "addSourceFileAtPath e f")
      case None
      with False Cons.prems show ?thesis by simp
    next
      case (Some sf)
      show ?thesis
      proof (cases "importedFrom e f t (getImportDeclarations sf) = []")
        case True
        with False Some Cons.prems Cons.IH[of acc] show ?thesis
          by (auto simp: scanImport_fold)
      next
        case nonempty: False
        let ?rec = "\<lparr>dnt_filePath = f, dnt_relativePath = path_relative e (rootPath e) f,
                      importedItems = importedFrom e f t (getImportDeclarations sf),
                      usageCount = length (importedFrom e f t (getImportDeclarations sf))\<rparr>"
        have "dependentsLoop e t fs (acc @ [?rec]) = Inr r"
          using False Some nonempty Cons.prems(1) by (simp add: scanImport_fold)
        from Cons.IH[OF this] have ih: "set (acc @ [?rec]) \<subseteq> set r"
          "\<forall>file sf. file \<in> set fs \<longrightarrow> file \<noteq> t \<longrightarrow> addSourceFileAtPath e file = Some sf \<longrightarrow>
            importedFrom e file t (getImportDeclarations sf) \<noteq> [] \<longrightarrow>
            (\<exists>x \<in> set r. dnt_filePath x = file \<and>
               importedItems x = importedFrom e file t (getImportDeclarations sf))"
          by blast+
        have "?rec \<in> set r" using ih(1) by auto
        then have here: "\<exists>x \<in> set r. dnt_filePath x = f \<and>
               importedItems x = importedFrom e f t (getImportDeclarations sf)"
          by (intro bexI[of _ ?rec]) simp_all
        show ?thesis using ih here Some by auto
      qed
    qed
  qed
qed

lemma edgeOf_cases:
  assumes "isLocalSpecifier (getModuleSpecifierValue decl)"
      and "resolveImportPath e (path_dirname e fp) (getModuleSpecifierValue decl) = Some rp"
      and "includesStr rp (rootPath e)"
  shows "(\<exists>err. edgeOf e fp decl = Some (Inl err)) \<or>
         (\<exists>d. edgeOf e fp decl = Some (Inr d) \<and> dep_filePath d = rp \<and> dep_imports d = importNames decl)"
  using assms by (cases "determineFileType e rp") (simp_all add: edgeOf_def)

lemma importsLoop_edges:
  "importsLoop e fp depth m decls deps v = Inr (r, v') \<Longrightarrow>
     set deps \<subseteq> set r \<and>
     (\<forall>decl \<in> set decls. edgeOf e fp decl \<noteq> None \<longrightarrow> (\<exists>d \<in> set r. edgeOf e fp decl = Some (Inr d)))"
proof (induction decls arbitrary: deps v)
  case Nil
  then show ?case by simp
next
  case (Cons decl decls)
  show ?case
  proof (cases "edgeOf e fp decl")
    case None
    with Cons.prems Cons.IH[of deps v] show ?thesis by auto
  next
    case (Some x)
    note edge = Some
    show ?thesis
    proof (cases x)
      case (Inl err)
      with edge Cons.prems show ?thesis by simp
    next
      case (Inr d)
      show ?thesis
      proof (cases "depth < m")
        case False
        with edge Inr Cons.prems have "importsLoop e fp depth m decls (deps @ [d]) v = Inr (r, v')"
          by simp
        from Cons.IH[OF this] edge Inr show ?thesis by auto
      next
        case True
        with edge Inr Cons.prems obtain sb v2 where
          "importsLoop e fp depth m decls (deps @ [d] @ sb) v2 = Inr (r, v')"
          by (auto split: option.splits sum.splits prod.splits)
        from Cons.IH[OF this] edge Inr show ?thesis by auto
      qed
    qed
  qed
qed

lemma analyzeImpact_parts:
  assumes "analyzeImpact e q = Inr ia"
  shows "\<exists>sf v. addSourceFileAtPath e (absolutePathOf e q) = Some sf
           \<and> targetFile ia = absolutePathOf e q
           \<and> exports ia = extractExports sf
           \<and> analyzeDependencies e sf 0 defaultMaxDepth [] = Inr (dependencies ia, v)
           \<and> analyzeDependents e (absolutePathOf e q) = Inr (dependents ia)"
  using assms
  by (auto simp: analyzeImpact_def split: if_splits option.splits sum.splits prod.splits)

lemma sample_impact:
  "analyzeImpact sampleEnv ''/p/src/a.ts'' = Inr sampleImpactA"
  "analyzeImpact sampleEnv ''/p/src/b.ts'' = Inr sampleImpactB"
  "analyzeImpact sampleEnv ''/p/src/c.ts'' = Inr sampleImpactC"
  by code_simp+

section \<open>Impact analysis: exports, dependencies and dependents\<close>

lemma analyzeImpact_exports_unused:
  "analyzeImpact e q = Inr ia \<Longrightarrow> x \<in> set (exports ia) \<Longrightarrow> \<not> isUsedExternally x"
  by (auto simp: analyzeImpact_def extractExports_def
      split: if_splits option.splits sum.splits prod.splits)

text \<open>
  C1 fails on the code: \<^verbatim>\<open>extractExports\<close> creates every item with
  \<^verbatim>\<open>isUsedExternally: false\<close> ("updated later" by its comment) and \<^verbatim>\<open>analyzeImpact\<close> returns the
  items without the reconciliation against the dependents. In the sample project the file
  \<^verbatim>\<open>b.ts\<close> exports \<open>b\<close>, the dependent \<^verbatim>\<open>a.ts\<close> imports \<open>b\<close> from it, and the export is returned
  as not used externally.
\<close>

theorem imported_export_not_marked_used:
  "analyzeImpact sampleEnv ''/p/src/b.ts'' = Inr sampleImpactB
   \<and> exports sampleImpactB = [\<lparr>exp_name = ''b'', exp_type = ET_function, isUsedExternally = False\<rparr>]
   \<and> dependents sampleImpactB =
       [\<lparr>dnt_filePath = ''/p/src/a.ts'', dnt_relativePath = ''src/a.ts'',
         importedItems = [''b''], usageCount = 1\<rparr>]"
  by (simp add: sample_impact(2)) (simp add: sampleImpactB_def)

text \<open>
  C2, as the claim states it, fails: the dependencies of \<^verbatim>\<open>a.ts\<close> contain \<^verbatim>\<open>c.ts\<close>, which is
  reached through \<^verbatim>\<open>b.ts\<close>, but the dependents of \<^verbatim>\<open>c.ts\<close> are the files that import it
  themselves, and \<^verbatim>\<open>a.ts\<close> is not one of them.
\<close>

theorem transitive_dependency_counterexample:
  "analyzeImpact sampleEnv ''/p/src/a.ts'' = Inr sampleImpactA
   \<and> ''/p/src/c.ts'' \<in> set (map dep_filePath (dependencies sampleImpactA))
   \<and> analyzeImpact sampleEnv ''/p/src/c.ts'' = Inr sampleImpactC
   \<and> ''/p/src/a.ts'' \<notin> set (map dnt_filePath (dependents sampleImpactC))"
  by (simp add: sample_impact) (simp add: sampleImpactA_def sampleImpactC_def depA_def depB_def depC_def)

text \<open>
  C2 (amended): for two successful queries on files A and B, if A itself has an import
  declaration with a local specifier that resolves to B inside the project root and binds
  at least one default or named import, A is among the files of the project listing, and
  A is not B, then B is in the dependencies of A with the names of that declaration, and A
  is in the dependents of B with those names among its imported items.
\<close>

theorem direct_import_is_dependent:
  assumes "analyzeImpact e qa = Inr ia" and "analyzeImpact e qb = Inr ib"
      and "addSourceFileAtPath e (targetFile ia) = Some sfA"
      and "getFilePath sfA = targetFile ia"
      and "importDecl \<in> set (getImportDeclarations sfA)"
      and "isLocalSpecifier (getModuleSpecifierValue importDecl)"
      and "resolveImportPath e (path_dirname e (targetFile ia)) (getModuleSpecifierValue importDecl)
             = Some (targetFile ib)"
      and "includesStr (targetFile ib) (rootPath e)"
      and "importNames importDecl \<noteq> []"
      and "targetFile ia \<in> set (globby e)"
      and "targetFile ia \<noteq> targetFile ib"
  shows "(\<exists>d \<in> set (dependencies ia).
            dep_filePath d = targetFile ib \<and> dep_imports d = importNames importDecl)
       \<and> (\<exists>r \<in> set (dependents ib).
            dnt_filePath r = targetFile ia \<and> set (importNames importDecl) \<subseteq> set (importedItems r))"
proof -
  from analyzeImpact_parts[OF assms(1)] obtain sf v where
    a: "addSourceFileAtPath e (absolutePathOf e qa) = Some sf" "targetFile ia = absolutePathOf e qa"
       "analyzeDependencies e sf 0 defaultMaxDepth [] = Inr (dependencies ia, v)"
    by blast
  from analyzeImpact_parts[OF assms(2)] have
    b: "targetFile ib = absolutePathOf e qb"
       "analyzeDependents e (absolutePathOf e qb) = Inr (dependents ib)"
    by blast+
  have sf: "sf = sfA" using a(1,2) assms(3) by simp
  have loop: "importsLoop e (targetFile ia) 0 defaultMaxDepth (getImportDeclarations sfA) []
      [targetFile ia] = Inr (dependencies ia, v)"
    using a(3) sf assms(4) by (simp add: analyzeDependencies.simps[of e sfA])
  from edgeOf_cases[OF assms(6) assms(7) assms(8)]
  have edge: "edgeOf e (targetFile ia) importDecl \<noteq> None" by auto
  from importsLoop_edges[OF loop] assms(5) edge obtain d where
    d: "d \<in> set (dependencies ia)" "edgeOf e (targetFile ia) importDecl = Some (Inr d)"
    by blast
  from edgeOf_cases[OF assms(6) assms(7) assms(8)] d(2)
  have "dep_filePath d = targetFile ib \<and> dep_imports d = importNames importDecl" by auto
  with d(1) have first: "\<exists>d \<in> set (dependencies ia).
            dep_filePath d = targetFile ib \<and> dep_imports d = importNames importDecl"
    by blast
  have sub: "set (importNames importDecl)
      \<subseteq> set (importedFrom e (targetFile ia) (targetFile ib) (getImportDeclarations sfA))"
    using assms(5) assms(7) by (auto simp: importedFrom_def)
  then have ne: "importedFrom e (targetFile ia) (targetFile ib) (getImportDeclarations sfA) \<noteq> []"
    using assms(9) by (cases "importNames importDecl") auto
  have "dependentsLoop e (targetFile ib) (globby e) [] = Inr (dependents ib)"
    using b by (simp add: analyzeDependents_def)
  from dependentsLoop_complete[OF this] assms(10) assms(11) assms(3) ne
  obtain r where r: "r \<in> set (dependents ib)" "dnt_filePath r = targetFile ia"
    "importedItems r = importedFrom e (targetFile ia) (targetFile ib) (getImportDeclarations sfA)"
    by blast
  have "\<exists>r \<in> set (dependents ib).
            dnt_filePath r = targetFile ia \<and> set (importNames importDecl) \<subseteq> set (importedItems r)"
    using r sub by (intro bexI[of _ r]) simp_all
  with first show ?thesis by blast
qed

theorem direct_import_is_dependent_witness:
  "(\<exists>d \<in> set (dependencies sampleImpactA).
      dep_filePath d = ''/p/src/b.ts'' \<and> dep_imports d = [''b''])
   \<and> (\<exists>r \<in> set (dependents sampleImpactB).
      dnt_filePath r = ''/p/src/a.ts'' \<and> set [''b''] \<subseteq> set (importedItems r))"
proof -
  have ta: "targetFile sampleImpactA = ''/p/src/a.ts''" and tb: "targetFile sampleImpactB = ''/p/src/b.ts''"
    by (simp_all add: sampleImpactA_def sampleImpactB_def)
  have h3: "addSourceFileAtPath sampleEnv (targetFile sampleImpactA) = Some sampleA"
    unfolding ta by (simp add: sampleEnv_def sampleFiles_def)
  have h4: "getFilePath sampleA = targetFile sampleImpactA"
    unfolding ta by (simp add: sampleA_def)
  have h5: "sampleImport ''./b'' [''b''] \<in> set (getImportDeclarations sampleA)"
    by (simp add: sampleA_def)
  have h6: "isLocalSpecifier (getModuleSpecifierValue (sampleImport ''./b'' [''b'']))"
    by code_simp
  have h7: "resolveImportPath sampleEnv (path_dirname sampleEnv (targetFile sampleImpactA))
       (getModuleSpecifierValue (sampleImport ''./b'' [''b''])) = Some (targetFile sampleImpactB)"
    unfolding ta tb by code_simp
  have h8: "includesStr (targetFile sampleImpactB) (rootPath sampleEnv)"
    unfolding tb by code_simp
  have h9: "importNames (sampleImport ''./b'' [''b'']) \<noteq> []"
    by (simp add: importNames_def sampleImport_def)
  have h10: "targetFile sampleImpactA \<in> set (globby sampleEnv)"
    unfolding ta by (simp add: sampleEnv_def sampleFiles_def)
  have h11: "targetFile sampleImpactA \<noteq> targetFile sampleImpactB"
    unfolding ta tb by simp
  have n: "importNames (sampleImport ''./b'' [''b'']) = [''b'']"
    by (simp add: importNames_def sampleImport_def)
  show ?thesis
    using direct_import_is_dependent[OF sample_impact(1) sample_impact(2) h3 h4 h5 h6 h7 h8 h9 h10 h11]
    unfolding ta tb n .
qed

text \<open>
  C8, as the claim states it, fails: \<^verbatim>\<open>c.ts\<close> imports \<^verbatim>\<open>{ a as x }\<close> and \<^verbatim>\<open>{ a as y }\<close> from
  \<^verbatim>\<open>a.ts\<close>; its record has the imported items \<open>a, a\<close> and the usage count 2, while it
  imports one distinct name.
\<close>

theorem usage_count_counterexample:
  "analyzeDependents sampleEnv ''/p/src/a.ts'' =
     Inr [\<lparr>dnt_filePath = ''/p/src/c.ts'', dnt_relativePath = ''src/c.ts'',
           importedItems = [''a'', ''a''], usageCount = 2\<rparr>]
   \<and> card (set [''a'', ''a'']) = 1"
  by code_simp

text \<open>
  C8 (amended): for every record of the reverse scan, \<^verbatim>\<open>usageCount\<close> is the number of entries
  of \<^verbatim>\<open>importedItems\<close>, which is not empty and lists, with repetitions, the names bound by
  the import declarations of that file that resolve to the target; when no name occurs
  twice there, the count is the number of distinct imported names.
\<close>

theorem usage_count_is_number_of_bindings:
  assumes "analyzeDependents e targetPath = Inr ds" and "r \<in> set ds"
  shows "usageCount r = length (importedItems r)
       \<and> importedItems r \<noteq> []
       \<and> (\<exists>sf. addSourceFileAtPath e (dnt_filePath r) = Some sf \<and>
            importedItems r = importedFrom e (dnt_filePath r) targetPath (getImportDeclarations sf))
       \<and> (distinct (importedItems r) \<longrightarrow> usageCount r = card (set (importedItems r)))"
proof -
  have "dependentsLoop e targetPath (globby e) [] = Inr ds"
    using assms(1) by (simp add: analyzeDependents_def)
  from dependentsLoop_sound[OF this assms(2)]
  show ?thesis by (auto simp: distinct_card)
qed

theorem usage_count_is_number_of_bindings_witness:
  "usageCount (hd (dependents sampleImpactB)) = length (importedItems (hd (dependents sampleImpactB)))
   \<and> importedItems (hd (dependents sampleImpactB)) = [''b'']
   \<and> distinct (importedItems (hd (dependents sampleImpactB)))
   \<and> usageCount (hd (dependents sampleImpactB)) = card (set (importedItems (hd (dependents sampleImpactB))))"
proof -
  have h1: "analyzeDependents sampleEnv ''/p/src/b.ts'' = Inr (dependents sampleImpactB)"
    by code_simp
  have h2: "hd (dependents sampleImpactB) \<in> set (dependents sampleImpactB)"
    by (simp add: sampleImpactB_def)
  have i: "importedItems (hd (dependents sampleImpactB)) = [''b'']"
    by (simp add: sampleImpactB_def)
  show ?thesis
    using usage_count_is_number_of_bindings[OF h1 h2] i by simp
qed

section \<open>The diff-to-block mapper\<close>




















lemma declares_blockOfNode: "\<not> declares node \<longleftrightarrow> blockOfNode n node = None"
  by (auto simp: declares_def blockOfNode_def split: NodeKind.splits option.splits)

lemma declaredCode_blockOfNode:
  "declaredCode node = Some code \<Longrightarrow>
     \<exists>b. blockOfNode n node = Some (Inr b) \<and> fullCode b = code \<and>
         cb_type b = (if isReactComponent code then BT_component else BT_function)"
  by (auto simp: declaredCode_def blockOfNode_def split: NodeKind.splits option.splits if_splits)

lemma blockOfNode_declaredCode:
  "blockOfNode n node = Some (Inr b) \<Longrightarrow> cb_type b = BT_component \<or> cb_type b = BT_function \<Longrightarrow>
     declaredCode node = Some (fullCode b)"
  by (auto simp: declaredCode_def blockOfNode_def split: NodeKind.splits option.splits if_splits)

lemma walkUp_ancestors:
  "ancestors start = pre @ current # rest \<Longrightarrow> \<forall>x \<in> set pre. blockOfNode n x = None \<Longrightarrow>
     blockOfNode n current = Some (Inr b) \<Longrightarrow> walkUp n start = Inr (Some b)"
proof (induction pre arbitrary: start)
  case Nil
  obtain k tx s e ini pr where st: "start = Node k tx s e ini pr" by (cases start)
  with Nil have "current = start" by simp
  with Nil st show ?case by simp
next
  case (Cons x pre)
  obtain k tx s e ini pr where st: "start = Node k tx s e ini pr" by (cases start)
  with Cons.prems(1) have x: "x = start"
    and tl: "(case pr of None \<Rightarrow> [] | Some p \<Rightarrow> ancestors p) = pre @ current # rest"
    by simp_all
  from tl obtain p where p: "pr = Some p" "ancestors p = pre @ current # rest"
    by (cases pr) auto
  have none: "blockOfNode n (Node k tx s e ini pr) = None"
    using Cons.prems(2) x st by simp
  have "walkUp n p = Inr (Some b)"
    using Cons.IH[OF p(2)] Cons.prems(2,3) by simp
  with none p st show ?case by simp
qed

lemma walkUp_found:
  "walkUp n start = Inr (Some b) \<Longrightarrow>
     \<exists>pre current rest. ancestors start = pre @ current # rest \<and>
        (\<forall>x \<in> set pre. blockOfNode n x = None) \<and> blockOfNode n current = Some (Inr b)"
proof (induction n start rule: walkUp.induct)
  case (1 lineNo k tx sl el ini pr)
  let ?node = "Node k tx sl el ini pr"
  show ?case
  proof (cases "blockOfNode lineNo ?node")
    case None
    with "1.prems" obtain p where p: "pr = Some p" "walkUp lineNo p = Inr (Some b)"
      by (cases pr) auto
    from "1.IH"[OF None p] obtain pre current rest where
      a: "ancestors p = pre @ current # rest" "\<forall>x \<in> set pre. blockOfNode lineNo x = None"
        "blockOfNode lineNo current = Some (Inr b)" by blast
    have "ancestors ?node = (?node # pre) @ current # rest" using p a(1) by simp
    moreover have "\<forall>x \<in> set (?node # pre). blockOfNode lineNo x = None" using None a(2) by simp
    ultimately show ?thesis using a(3) by blast
  next
    case (Some r)
    with "1.prems" have "r = Inr b" by (cases r) auto
    with Some have "blockOfNode lineNo ?node = Some (Inr b)" by simp
    moreover have "ancestors ?node = [] @ ?node # (case pr of None \<Rightarrow> [] | Some p \<Rightarrow> ancestors p)"
      by simp
    ultimately show ?thesis by (metis empty_iff list.set(1))
  qed
qed

lemma sample_block_at:
  "findCodeBlockAtLine sampleA (Finite 2) = Inr (Some (sampleBlock [Finite 2]))"
  "findCodeBlockAtLine sampleA (Finite 3) = Inr (Some (sampleBlock [Finite 3]))"
  "findCodeBlockAtLine sampleA (Finite 4) = Inr (Some (sampleBlock [Finite 4]))"
  "findCodeBlockAtLine sampleA (Finite 5) = Inr (Some (sampleBlock [Finite 5]))"
  by code_simp+

text \<open>
  C5, as the claim states it, fails in both directions. The function of \<^verbatim>\<open>a.ts\<close>, whose only
  markup is the text \<^verbatim>\<open>return (<p/>)\<close> inside a comment, is tagged \<^verbatim>\<open>component\<close>; a function
  whose body is \<^verbatim>\<open>return <div/>;\<close> is tagged \<^verbatim>\<open>function\<close>.
\<close>

theorem comment_markup_counterexample:
  "findCodeBlockAtLine sampleA (Finite 3) = Inr (Some (sampleBlock [Finite 3]))
   \<and> cb_type (sampleBlock [Finite 3]) = BT_component
   \<and> fullCode (sampleBlock [Finite 3]) =
       ''export function a() {'' @ [newline] @ ''  // return (<p/>)'' @ [newline] @
       ''  return b();'' @ [newline] @ ''}''
   \<and> walkUp (Finite 1) markupFunction =
       Inr (Some \<lparr>cb_type = BT_function, cb_name = ''F'', startLine = 1, endLine = 1,
                  signature = ''function F(): any'', fullCode = ''function F() { return <div/>; }'',
                  changedLineNumbers = [Finite 1]\<rparr>)"
  by code_simp

text \<open>
  C5 (amended): a function declaration or an arrow function bound to a variable that the
  mapper locates, that is the first declaration on the way from the node at the changed
  line up to the root, is returned as a block whose code is the text of the function
  declaration, or the text of the whole variable statement for the arrow function, and
  whose type is \<^verbatim>\<open>component\<close> when that code contains the substring \<^verbatim>\<open>return (\<close> and
  contains \<^verbatim>\<open><\<close> or \<^verbatim>\<open>jsx\<close>, and \<^verbatim>\<open>function\<close> otherwise. Conversely every block of type
  \<^verbatim>\<open>component\<close> or \<^verbatim>\<open>function\<close> that the mapper returns comes from such a declaration, and it
  has the type \<^verbatim>\<open>component\<close> exactly when its code passes that test. The test is a plain
  substring test on the text, comments and type annotations included.
\<close>

theorem component_tag_is_substring_test:
  assumes "getDescendantAtPos sf (posOfLine (getFullText sf) n) = Some start"
  shows "(\<forall>pre current rest code.
            ancestors start = pre @ current # rest \<and> (\<forall>x \<in> set pre. \<not> declares x) \<and>
            declaredCode current = Some code \<longrightarrow>
            (\<exists>b. findCodeBlockAtLine sf n = Inr (Some b) \<and> fullCode b = code \<and>
                 cb_type b =
                   (if includesStr code ''return ('' \<and> (includesStr code ''<'' \<or> includesStr code ''jsx'')
                    then BT_component else BT_function)))
       \<and> (\<forall>b. findCodeBlockAtLine sf n = Inr (Some b) \<and>
               (cb_type b = BT_component \<or> cb_type b = BT_function) \<longrightarrow>
            (\<exists>pre current rest.
                ancestors start = pre @ current # rest \<and> (\<forall>x \<in> set pre. \<not> declares x) \<and>
                declaredCode current = Some (fullCode b))
            \<and> (cb_type b = BT_component) =
                (includesStr (fullCode b) ''return ('' \<and>
                  (includesStr (fullCode b) ''<'' \<or> includesStr (fullCode b) ''jsx'')))"
proof -
  have f: "findCodeBlockAtLine sf n = walkUp n start"
    using assms by (simp add: findCodeBlockAtLine_def)
  have forward: "\<exists>b. findCodeBlockAtLine sf n = Inr (Some b) \<and> fullCode b = code \<and>
                 cb_type b =
                   (if includesStr code ''return ('' \<and> (includesStr code ''<'' \<or> includesStr code ''jsx'')
                    then BT_component else BT_function)"
    if h: "ancestors start = pre @ current # rest \<and> (\<forall>x \<in> set pre. \<not> declares x) \<and>
            declaredCode current = Some code" for pre current rest code
  proof -
    from declaredCode_blockOfNode[of current code n] h obtain b where
      b: "blockOfNode n current = Some (Inr b)" "fullCode b = code"
        "cb_type b = (if isReactComponent code then BT_component else BT_function)" by blast
    have "\<forall>x \<in> set pre. blockOfNode n x = None"
      using h declares_blockOfNode by blast
    from walkUp_ancestors[OF _ this b(1)] h have "walkUp n start = Inr (Some b)" by blast
    with f b(2,3) show ?thesis by (auto simp: isReactComponent_def)
  qed
  have backward: "(\<exists>pre current rest.
                ancestors start = pre @ current # rest \<and> (\<forall>x \<in> set pre. \<not> declares x) \<and>
                declaredCode current = Some (fullCode b))
            \<and> (cb_type b = BT_component) =
                (includesStr (fullCode b) ''return ('' \<and>
                  (includesStr (fullCode b) ''<'' \<or> includesStr (fullCode b) ''jsx''))"
    if h: "findCodeBlockAtLine sf n = Inr (Some b) \<and>
               (cb_type b = BT_component \<or> cb_type b = BT_function)" for b
  proof -
    from h f have "walkUp n start = Inr (Some b)" by simp
    from walkUp_found[OF this] obtain pre current rest where
      a: "ancestors start = pre @ current # rest" "\<forall>x \<in> set pre. blockOfNode n x = None"
        "blockOfNode n current = Some (Inr b)" by blast
    have d: "declaredCode current = Some (fullCode b)"
      using blockOfNode_declaredCode[OF a(3)] h by blast
    have nd: "\<forall>x \<in> set pre. \<not> declares x" using a(2) declares_blockOfNode by blast
    from declaredCode_blockOfNode[OF d, of n] a(3) have
      "cb_type b = (if isReactComponent (fullCode b) then BT_component else BT_function)" by auto
    then have "(cb_type b = BT_component) = isReactComponent (fullCode b)" by simp
    with a(1) nd d show ?thesis unfolding isReactComponent_def by blast
  qed
  from forward backward show ?thesis by blast
qed

theorem component_tag_is_substring_test_witness:
  "getDescendantAtPos viewFile (posOfLine (getFullText viewFile) (Finite 2)) = Some viewReturnToken
   \<and> ancestors viewReturnToken =
       [viewReturnToken, viewArrow] @ viewDeclaration # [viewDeclarationList, viewStatement, viewRoot]
   \<and> list_all (\<lambda>x. \<not> declares x) [viewReturnToken, viewArrow]
   \<and> declaredCode viewDeclaration = Some viewText
   \<and> (\<exists>b. findCodeBlockAtLine viewFile (Finite 2) = Inr (Some b) \<and> fullCode b = viewText \<and>
          cb_type b = BT_component)
   \<and> findCodeBlockAtLine viewFile (Finite 2) = Inr (Some (viewBlock [Finite 2]))
   \<and> includesStr viewText ''return ('' \<and> includesStr viewText ''<''
   \<and> \<not> includesStr viewArrowText ''<'' \<and> \<not> includesStr viewArrowText ''jsx''
   \<and> getDescendantAtPos sampleA (posOfLine (getFullText sampleA) (Finite 3)) = Some sampleLeaf
   \<and> ancestors sampleLeaf = [sampleLeaf] @ sampleFunctionNode # [sampleRoot]
   \<and> list_all (\<lambda>x. \<not> declares x) [sampleLeaf]
   \<and> declaredCode sampleFunctionNode = Some sampleFunctionText
   \<and> (\<exists>b. findCodeBlockAtLine sampleA (Finite 3) = Inr (Some b) \<and> fullCode b = sampleFunctionText \<and>
          cb_type b = BT_component)
   \<and> (\<exists>pre current rest.
         ancestors sampleLeaf = pre @ current # rest \<and> list_all (\<lambda>x. \<not> declares x) pre \<and>
         declaredCode current = Some (fullCode (sampleBlock [Finite 3])))"
proof -
  have v1: "getDescendantAtPos viewFile (posOfLine (getFullText viewFile) (Finite 2)) = Some viewReturnToken"
    by code_simp
  have v2: "ancestors viewReturnToken =
       [viewReturnToken, viewArrow] @ viewDeclaration # [viewDeclarationList, viewStatement, viewRoot]"
    by code_simp
  have v3: "list_all (\<lambda>x. \<not> declares x) [viewReturnToken, viewArrow]"
    by code_simp
  have v4: "declaredCode viewDeclaration = Some viewText"
    by code_simp
  have v5: "includesStr viewText ''return (''" "includesStr viewText ''<''"
    "\<not> includesStr viewArrowText ''<''" "\<not> includesStr viewArrowText ''jsx''"
    by code_simp+
  have v6: "findCodeBlockAtLine viewFile (Finite 2) = Inr (Some (viewBlock [Finite 2]))"
    by code_simp
  have a1: "getDescendantAtPos sampleA (posOfLine (getFullText sampleA) (Finite 3)) = Some sampleLeaf"
    by code_simp
  have a2: "ancestors sampleLeaf = [sampleLeaf] @ sampleFunctionNode # [sampleRoot]"
    by code_simp
  have a3: "list_all (\<lambda>x. \<not> declares x) [sampleLeaf]"
    by code_simp
  have a4: "declaredCode sampleFunctionNode = Some sampleFunctionText"
    by code_simp
  have a5: "includesStr sampleFunctionText ''return (''" "includesStr sampleFunctionText ''<''"
    by code_simp+
  have a6: "cb_type (sampleBlock [Finite 3]) = BT_component"
    "fullCode (sampleBlock [Finite 3]) = sampleFunctionText"
    by (simp_all add: sampleBlock_def)
  have view: "\<exists>b. findCodeBlockAtLine viewFile (Finite 2) = Inr (Some b) \<and> fullCode b = viewText \<and>
          cb_type b = BT_component"
  proof -
    from component_tag_is_substring_test[OF v1] have
      "ancestors viewReturnToken =
         [viewReturnToken, viewArrow] @ viewDeclaration # [viewDeclarationList, viewStatement, viewRoot] \<and>
       (\<forall>x \<in> set [viewReturnToken, viewArrow]. \<not> declares x) \<and>
       declaredCode viewDeclaration = Some viewText \<longrightarrow>
       (\<exists>b. findCodeBlockAtLine viewFile (Finite 2) = Inr (Some b) \<and> fullCode b = viewText \<and>
            cb_type b =
              (if includesStr viewText ''return ('' \<and>
                  (includesStr viewText ''<'' \<or> includesStr viewText ''jsx'')
               then BT_component else BT_function))"
      by blast
    with v2 v3 v4 v5(1,2) show ?thesis by (simp add: list_all_iff)
  qed
  have fn: "\<exists>b. findCodeBlockAtLine sampleA (Finite 3) = Inr (Some b) \<and> fullCode b = sampleFunctionText \<and>
          cb_type b = BT_component"
  proof -
    from component_tag_is_substring_test[OF a1] have
      "ancestors sampleLeaf = [sampleLeaf] @ sampleFunctionNode # [sampleRoot] \<and>
       (\<forall>x \<in> set [sampleLeaf]. \<not> declares x) \<and>
       declaredCode sampleFunctionNode = Some sampleFunctionText \<longrightarrow>
       (\<exists>b. findCodeBlockAtLine sampleA (Finite 3) = Inr (Some b) \<and> fullCode b = sampleFunctionText \<and>
            cb_type b =
              (if includesStr sampleFunctionText ''return ('' \<and>
                  (includesStr sampleFunctionText ''<'' \<or> includesStr sampleFunctionText ''jsx'')
               then BT_component else BT_function))"
      by blast
    with a2 a3 a4 a5 show ?thesis by (simp add: list_all_iff)
  qed
  have conv: "\<exists>pre current rest.
         ancestors sampleLeaf = pre @ current # rest \<and> list_all (\<lambda>x. \<not> declares x) pre \<and>
         declaredCode current = Some (fullCode (sampleBlock [Finite 3]))"
  proof -
    from component_tag_is_substring_test[OF a1] have
      "findCodeBlockAtLine sampleA (Finite 3) = Inr (Some (sampleBlock [Finite 3])) \<and>
       (cb_type (sampleBlock [Finite 3]) = BT_component \<or> cb_type (sampleBlock [Finite 3]) = BT_function) \<longrightarrow>
       (\<exists>pre current rest.
           ancestors sampleLeaf = pre @ current # rest \<and> (\<forall>x \<in> set pre. \<not> declares x) \<and>
           declaredCode current = Some (fullCode (sampleBlock [Finite 3])))"
      by blast
    with sample_block_at(2) a6(1) show ?thesis by (simp add: list_all_iff)
  qed
  from v1 v2 v3 v4 v5 v6 view a1 a2 a3 a4 fn conv show ?thesis by blast
qed








section \<open>The marker-to-declaration mapping\<close>

lemma blockTypeOf_accepted: "(blockTypeOf n \<noteq> None) = acceptedByCode n"
  by (simp add: blockTypeOf_def acceptedByCode_def split: NodeKind.splits)

lemma followStep_inv:
  assumes "followInv L xs st"
  shows "followInv L (xs @ [node]) (followStep L st node)"
proof -
  obtain result minD where st: "st = (result, minD)" by (cases st)
  show ?thesis
  proof (cases "acceptedByCode node \<and> L < getStartLine node")
    case False
    then have "followStep L st node = st"
      using blockTypeOf_accepted[of node]
      by (auto simp: followStep_def st split: option.splits)
    with assms False show ?thesis
      by (auto simp: followInv_def st split: option.splits)
  next
    case True
    then obtain ty nm where bt: "blockTypeOf node = Some (ty, nm)"
      using blockTypeOf_accepted[of node] by (cases "blockTypeOf node") auto
    show ?thesis
    proof (cases "enat (getStartLine node - L) < minD")
      case closer: True
      have step: "followStep L st node =
          (Some \<lparr>fb_type = ty, fb_name = nm, fb_code = getText node, fb_node = node,
                  fb_startLine = getStartLine node, fb_endLine = getEndLine node\<rparr>,
           enat (getStartLine node - L))"
        using True closer bt by (simp add: followStep_def st)
      have "\<forall>n \<in> set xs. acceptedByCode n \<and> L < getStartLine n \<longrightarrow> getStartLine node \<le> getStartLine n"
      proof (cases result)
        case None
        with assms show ?thesis by (auto simp: followInv_def st)
      next
        case (Some r)
        with assms closer have "getStartLine node - L < getStartLine (fb_node r) - L"
          "\<forall>n \<in> set xs. acceptedByCode n \<and> L < getStartLine n \<longrightarrow>
                getStartLine (fb_node r) \<le> getStartLine n"
          by (auto simp: followInv_def st)
        then show ?thesis by fastforce
      qed
      with True show ?thesis
        unfolding step by (auto simp: followInv_def)
    next
      case farther: False
      then have same: "followStep L st node = st"
        by (simp add: followStep_def st)
      from farther obtain r where r: "result = Some r"
        by (cases result) (use assms in \<open>auto simp: followInv_def st\<close>)
      with assms farther have "getStartLine (fb_node r) - L \<le> getStartLine node - L"
        "L < getStartLine (fb_node r)"
        by (auto simp: followInv_def st)
      then have "getStartLine (fb_node r) \<le> getStartLine node" using True by linarith
      with assms r show ?thesis
        unfolding same by (auto simp: followInv_def st)
    qed
  qed
qed

lemma followFold_inv:
  "followInv L xs st \<Longrightarrow> followInv L (xs @ ys) (foldl (followStep L) st ys)"
proof (induction ys arbitrary: xs st)
  case Nil
  then show ?case by simp
next
  case (Cons y ys)
  from Cons.IH[OF followStep_inv[OF Cons.prems, of y]] show ?case by simp
qed

lemma sample_following:
  "findFollowingCodeBlock markerFile 1 =
     Some \<lparr>fb_type = TB_arrow, fb_name = None, fb_code = ''x => f(x)'', fb_node = callbackArrow,
           fb_startLine = 2, fb_endLine = 2\<rparr>"
  by code_simp

text \<open>
  C7, as the claim states it, fails: for a marker on line 1, followed by a call with a
  callback arrow function on line 2 and a function declaration on line 4, the mapping
  returns the callback, an arrow function that is not bound to a variable and so is not a
  declaration of the kinds the claim accepts, although such a declaration starts after the
  marker.
\<close>

theorem callback_arrow_counterexample:
  "findFollowingCodeBlock markerFile 1 =
     Some \<lparr>fb_type = TB_arrow, fb_name = None, fb_code = ''x => f(x)'', fb_node = callbackArrow,
           fb_startLine = 2, fb_endLine = 2\<rparr>
   \<and> \<not> acceptedBySpec callbackArrow
   \<and> declaredFunction \<in> set (forEachDescendant markerFile)
   \<and> acceptedBySpec declaredFunction
   \<and> 1 < getStartLine declaredFunction"
proof -
  have "\<not> acceptedBySpec callbackArrow" "acceptedBySpec declaredFunction"
    "1 < getStartLine declaredFunction"
    by code_simp+
  moreover have "declaredFunction \<in> set (forEachDescendant markerFile)"
    by (simp add: markerFile_def)
  ultimately show ?thesis using sample_following by blast
qed

text \<open>
  C7 (amended): the accepted nodes are the function declarations, the method declarations,
  the class declarations and all arrow functions, bound to a variable or not. For a marker
  on line L the mapping returns none exactly when no accepted node of the file starts
  after L; otherwise it returns an accepted node that starts after L and whose start line
  is the least among the accepted nodes that start after L.
\<close>

theorem following_block_is_nearest:
  "(findFollowingCodeBlock sf L = None \<longleftrightarrow>
      (\<forall>n \<in> set (forEachDescendant sf). \<not> (acceptedByCode n \<and> L < getStartLine n)))
   \<and> (\<forall>r. findFollowingCodeBlock sf L = Some r \<longrightarrow>
         fb_node r \<in> set (forEachDescendant sf) \<and> acceptedByCode (fb_node r)
         \<and> L < getStartLine (fb_node r)
         \<and> fb_startLine r = getStartLine (fb_node r) \<and> fb_code r = getText (fb_node r)
         \<and> (\<forall>n \<in> set (forEachDescendant sf). acceptedByCode n \<and> L < getStartLine n \<longrightarrow>
               getStartLine (fb_node r) \<le> getStartLine n))"
proof -
  have "followInv L [] (None, \<infinity>)" by (simp add: followInv_def)
  from followFold_inv[OF this, of "forEachDescendant sf"]
  have inv: "followInv L (forEachDescendant sf) (foldl (followStep L) (None, \<infinity>) (forEachDescendant sf))"
    by simp
  obtain res m where fm: "foldl (followStep L) (None, \<infinity>) (forEachDescendant sf) = (res, m)"
    by (cases "foldl (followStep L) (None, \<infinity>) (forEachDescendant sf)")
  have r: "findFollowingCodeBlock sf L = res" by (simp add: findFollowingCodeBlock_def fm)
  show ?thesis
  proof (cases res)
    case None
    with inv fm r show ?thesis by (auto simp: followInv_def)
  next
    case (Some x)
    with inv fm r show ?thesis by (auto simp: followInv_def)
  qed
qed

theorem following_block_is_nearest_witness:
  "findFollowingCodeBlock markerFile 4 = None
   \<and> findFollowingCodeBlock markerFile 1 =
       Some \<lparr>fb_type = TB_arrow, fb_name = None, fb_code = ''x => f(x)'', fb_node = callbackArrow,
             fb_startLine = 2, fb_endLine = 2\<rparr>
   \<and> callbackArrow \<in> set (forEachDescendant markerFile)
   \<and> acceptedByCode callbackArrow \<and> 1 < getStartLine callbackArrow
   \<and> declaredFunction \<in> set (forEachDescendant markerFile)
   \<and> acceptedByCode declaredFunction \<and> 1 < getStartLine declaredFunction
   \<and> getStartLine callbackArrow \<le> getStartLine declaredFunction"
proof -
  have n: "findFollowingCodeBlock markerFile 4 = None" by code_simp
  have d: "declaredFunction \<in> set (forEachDescendant markerFile)"
    "acceptedByCode declaredFunction" "1 < getStartLine declaredFunction"
    by (simp_all add: markerFile_def declaredFunction_def acceptedByCode_def)
  show ?thesis
    using following_block_is_nearest[of markerFile 1] sample_following n d by simp
qed

section \<open>The relevance scorer\<close>

lemma tier_fold:
  "fst (foldl (\<lambda>(score, matched) x. if P x then (score + k, matched @ [kw]) else (score, matched))
          (s0, m0) xs) = s0 + k * length (filter P xs)"
  by (induction xs arbitrary: s0 m0) auto

lemma tier_fold':
  "fst (foldl (\<lambda>(score, matched) x. if P x then (score + k, matched @ [kw]) else (score, matched))
          st xs) = fst st + k * length (filter P xs)"
  using tier_fold[of P k kw "fst st" "snd st" xs] by simp

lemma scoreStep_fst:
  "fst (scoreStep e file st keyword) = fst st + keywordPoints e file keyword"
  by (cases st) (simp add: scoreStep_def Let_def tier_fold' keywordPoints_def fileTier_def)

lemma score_fold:
  "fst (foldl (scoreStep e file) st keywords) = fst st + sum_list (map (keywordPoints e file) keywords)"
  by (induction "keywords" arbitrary: st) (simp_all add: scoreStep_fst)

lemma calculateMatchScore_fst:
  "fst (calculateMatchScore e file keywords) = sum_list (map (keywordPoints e file) keywords)"
  using score_fold[of e "file" "(0, [])" "keywords"]
  by (cases "foldl (scoreStep e file) (0, []) keywords") (simp add: calculateMatchScore_def)

lemma keywordPoints_name:
  "includesStr (toLowerCase (path_basename e (fa_filePath file))) keyword \<Longrightarrow>
     10 \<le> keywordPoints e file keyword"
  by (simp add: keywordPoints_def fileTier_def)

lemma sum_list_member_le: "(x::nat) \<in> set xs \<Longrightarrow> x \<le> sum_list xs"
  by (induction xs) auto

text \<open>
  The tiers of the scorer add up: the score of a file is the sum, over the keywords, of the
  points of each keyword, which are 10 for the file name or else 5 for the path, 8 for
  every export, 6 for every function name and 6 for every interface name that contains the
  keyword after lower-casing. A file named \<^verbatim>\<open>userProfile.ts\<close> scores at least 10 against the
  single keyword \<^verbatim>\<open>user\<close>, whatever else it contains.
\<close>

lemma score_sum_of_tiers:
  "fst (calculateMatchScore e file keywords) = sum_list (map (keywordPoints e file) keywords)
   \<and> (includesStr (toLowerCase (path_basename e (fa_filePath file))) keyword \<longrightarrow>
        keywordPoints e file keyword =
          10 + 8 * length (filter (\<lambda>exp. includesStr (toLowerCase exp) keyword) (fa_exports file))
             + 6 * length (filter (\<lambda>func. optNameMatches func keyword) (fa_functions file))
             + 6 * length (filter (\<lambda>iface. optNameMatches iface keyword) (fa_interfaces file)))
   \<and> (keyword \<in> set keywords \<and> includesStr (toLowerCase (path_basename e (fa_filePath file))) keyword \<longrightarrow>
        10 \<le> fst (calculateMatchScore e file keywords))
   \<and> (path_basename e (fa_filePath file) = ''userProfile.ts'' \<longrightarrow>
        10 \<le> fst (calculateMatchScore e file [''user'']))"
proof -
  have a: "fst (calculateMatchScore e file keywords) = sum_list (map (keywordPoints e file) keywords)"
    by (rule calculateMatchScore_fst)
  have b: "includesStr (toLowerCase (path_basename e (fa_filePath file))) keyword \<longrightarrow>
        keywordPoints e file keyword =
          10 + 8 * length (filter (\<lambda>exp. includesStr (toLowerCase exp) keyword) (fa_exports file))
             + 6 * length (filter (\<lambda>func. optNameMatches func keyword) (fa_functions file))
             + 6 * length (filter (\<lambda>iface. optNameMatches iface keyword) (fa_interfaces file))"
    by (simp add: keywordPoints_def fileTier_def)
  have c: "keyword \<in> set keywords \<and> includesStr (toLowerCase (path_basename e (fa_filePath file))) keyword \<longrightarrow>
        10 \<le> fst (calculateMatchScore e file keywords)"
  proof
    assume h: "keyword \<in> set keywords \<and> includesStr (toLowerCase (path_basename e (fa_filePath file))) keyword"
    then have "keywordPoints e file keyword \<in> set (map (keywordPoints e file) keywords)" by simp
    from sum_list_member_le[OF this] keywordPoints_name[of e "file" keyword] h
    show "10 \<le> fst (calculateMatchScore e file keywords)" unfolding a by simp
  qed
  have u: "includesStr (toLowerCase ''userProfile.ts'') ''user''" by code_simp
  have d: "path_basename e (fa_filePath file) = ''userProfile.ts'' \<longrightarrow>
        10 \<le> fst (calculateMatchScore e file [''user''])"
  proof
    assume "path_basename e (fa_filePath file) = ''userProfile.ts''"
    with u have "10 \<le> keywordPoints e file ''user''" by (simp add: keywordPoints_name)
    then show "10 \<le> fst (calculateMatchScore e file [''user''])"
      by (simp add: calculateMatchScore_fst)
  qed
  from a b c d show ?thesis by blast
qed

text \<open>
  A keyword is compared as it is given. Lower-casing leaves no character that has a
  lower-case counterpart, so a keyword with such a character, an upper-case letter, occurs
  in no lower-cased name and earns nothing for any file.
\<close>

lemma toLowerCase_char_idem: "toLowerCase_char (toLowerCase_char c) = toLowerCase_char c"
proof -
  have "(of_char c :: nat) < 256" by simp
  then show ?thesis
    unfolding toLowerCase_char_def by (auto simp: of_char_of)
qed

lemma includesStr_set: "includesStr s p \<Longrightarrow> set p \<subseteq> set s"
proof (induction s)
  case Nil
  then show ?case by simp
next
  case (Cons c cs)
  from Cons.prems have "startsWith (c # cs) p \<or> includesStr cs p" by simp
  then show ?case
  proof
    assume "startsWith (c # cs) p"
    then have "p = take (length p) (c # cs)" by (simp add: startsWith_def)
    then show ?thesis by (metis set_take_subset)
  next
    assume "includesStr cs p"
    with Cons.IH show ?thesis by auto
  qed
qed

lemma capital_never_included:
  assumes "c \<in> set keyword" and "toLowerCase_char c \<noteq> c"
  shows "\<not> includesStr (toLowerCase s) keyword"
proof
  assume "includesStr (toLowerCase s) keyword"
  from includesStr_set[OF this] assms(1) obtain d where "c = toLowerCase_char d"
    by (auto simp: toLowerCase_def)
  with assms(2) show False by (simp add: toLowerCase_char_idem)
qed

lemma no_match_fold: "foldl (\<lambda>(score, matched) x. (score, matched)) st xs = st"
  by (induction xs arbitrary: st) (auto split: prod.splits)

lemma capital_keyword_scores_nothing:
  assumes "c \<in> set keyword" and "toLowerCase_char c \<noteq> c"
  shows "calculateMatchScore e file [keyword] = (0, [])"
proof -
  have n: "\<not> includesStr (toLowerCase s) keyword" for s
    by (rule capital_never_included[OF assms])
  have o: "\<not> optNameMatches nm keyword" for nm
    by (cases nm) (simp_all add: optNameMatches_def n)
  have "scoreStep e file (0, []) keyword = (0, [])"
    by (simp add: scoreStep_def Let_def n o no_match_fold)
  then show ?thesis by (simp add: calculateMatchScore_def uniq_def)
qed

text \<open>
  C9 fails of the code, which lower-cases the file name, the path and the symbol names
  and not the keyword: the keyword \<^verbatim>\<open>User\<close> is a case-insensitive substring of the base
  name \<^verbatim>\<open>userProfile.ts\<close>, and the file scores 0 against it; so it does against the keyword
  \<^verbatim>\<open>userProfile.ts\<close>, its own name, which is how \<^verbatim>\<open>extractKeywords\<close> passes on a file name of
  the user input. Against the keyword \<^verbatim>\<open>user\<close> the file scores 10.
\<close>

theorem upper_case_keyword_scores_nothing:
  "path_basename sampleEnv (fa_filePath userProfile) = ''userProfile.ts''
   \<and> includesStr (toLowerCase ''userProfile.ts'') (toLowerCase ''User'')
   \<and> calculateMatchScore sampleEnv userProfile [''User''] = (0, [])
   \<and> includesStr (toLowerCase ''userProfile.ts'') (toLowerCase ''userProfile.ts'')
   \<and> calculateMatchScore sampleEnv userProfile [''userProfile.ts''] = (0, [])
   \<and> calculateMatchScore sampleEnv userProfile [''user''] = (10, [''user''])"
proof -
  have 1: "path_basename sampleEnv (fa_filePath userProfile) = ''userProfile.ts''" by code_simp
  have 2: "includesStr (toLowerCase ''userProfile.ts'') (toLowerCase ''User'')" by code_simp
  have u: "toLowerCase_char (CHR ''U'') \<noteq> CHR ''U''" "toLowerCase_char (CHR ''P'') \<noteq> CHR ''P''"
    by code_simp+
  have 3: "calculateMatchScore sampleEnv userProfile [''User''] = (0, [])"
    by (rule capital_keyword_scores_nothing[of "CHR ''U''"]) (simp_all add: u)
  have 4: "includesStr (toLowerCase ''userProfile.ts'') (toLowerCase ''userProfile.ts'')" by code_simp
  have 5: "calculateMatchScore sampleEnv userProfile [''userProfile.ts''] = (0, [])"
    by (rule capital_keyword_scores_nothing[of "CHR ''P''"]) (simp_all add: u)
  have 6: "calculateMatchScore sampleEnv userProfile [''user''] = (10, [''user''])" by code_simp
  from 1 2 3 4 5 6 show ?thesis by blast
qed

section \<open>Staged files with another status\<close>

lemma stagedEntries_filter: "stagedEntries (filter isAMD ls) = stagedEntries ls"
  by (induction ls) (auto simp: isAMD_def)

lemma stagedEntries_origin:
  "(p, st) \<in> set (stagedEntries ls) \<Longrightarrow> \<exists>line \<in> set ls. isAMD line \<and> pathField line = p"
  by (induction ls) (auto simp: isAMD_def split: if_splits)

lemma getStagedFiles_lines:
  "git_name_status e = Inr out \<Longrightarrow>
     getStagedFiles e = Inr (stagedEntries (split (trim out) newline))"
  by (simp add: getStagedFiles_def statusField_def)

lemma analyzeFileChange_fields:
  "analyzeFileChange e p st ap = Inr (Some fc) \<Longrightarrow> fc_status fc = st \<and> fc_relativePath fc = p"
  by (auto simp: analyzeFileChange_def split: if_splits sum.splits)

lemma countStatus_snoc:
  "countStatus st (fcs @ [fc]) = countStatus st fcs + (if fc_status fc = st then 1 else 0)"
  by (simp add: countStatus_def)

lemma stagedLoop_result:
  "stagedLoop e entries (fcs, s) = Inr (fcs', s') \<Longrightarrow>
     (\<forall>fc \<in> set fcs'. fc \<in> set fcs \<or> (\<exists>st. (Some (fc_relativePath fc), st) \<in> set entries))
     \<and> sum_added s' + countStatus added fcs = sum_added s + countStatus added fcs'
     \<and> sum_modified s' + countStatus modified fcs = sum_modified s + countStatus modified fcs'
     \<and> sum_deleted s' + countStatus deleted fcs = sum_deleted s + countStatus deleted fcs'"
proof (induction entries arbitrary: fcs s)
  case Nil
  then show ?case by simp
next
  case (Cons en entries)
  obtain op st where en: "en = (op, st)" by (cases en)
  show ?case
  proof (cases op)
    case None
    with en Cons.prems show ?thesis by simp
  next
    case (Some p)
    show ?thesis
    proof (cases "isSourceFile e p")
      case False
      with en Some Cons.prems have "stagedLoop e entries (fcs, s) = Inr (fcs', s')" by simp
      from Cons.IH[OF this] show ?thesis by auto
    next
      case True
      show ?thesis
      proof (cases "analyzeFileChange e p st (path_join e (rootPath e) p)")
        case (Inl err)
        with en Some True Cons.prems show ?thesis by simp
      next
        case (Inr ofc)
        show ?thesis
        proof (cases ofc)
          case None
          with en Some True Inr Cons.prems have "stagedLoop e entries (fcs, s) = Inr (fcs', s')" by simp
          from Cons.IH[OF this] show ?thesis by auto
        next
          case (Some fc)
          with en \<open>op = Some p\<close> True Inr Cons.prems
          have run: "stagedLoop e entries (fcs @ [fc], bump st s) = Inr (fcs', s')" by simp
          have f: "fc_status fc = st" "fc_relativePath fc = p"
            using analyzeFileChange_fields Inr Some by blast+
          from Cons.IH[OF run] have ih:
            "\<forall>x \<in> set fcs'. x \<in> set (fcs @ [fc]) \<or> (\<exists>st. (Some (fc_relativePath x), st) \<in> set entries)"
            "sum_added s' + countStatus added (fcs @ [fc]) = sum_added (bump st s) + countStatus added fcs'"
            "sum_modified s' + countStatus modified (fcs @ [fc]) = sum_modified (bump st s) + countStatus modified fcs'"
            "sum_deleted s' + countStatus deleted (fcs @ [fc]) = sum_deleted (bump st s) + countStatus deleted fcs'"
            by blast+
          have 1: "\<forall>x \<in> set fcs'. x \<in> set fcs \<or> (\<exists>st. (Some (fc_relativePath x), st) \<in> set (en # entries))"
            using ih(1) f en \<open>op = Some p\<close> by auto
          have 2: "sum_added s' + countStatus added fcs = sum_added s + countStatus added fcs'"
            using ih(2) f by (cases st) (simp_all add: countStatus_snoc bump_def)
          have 3: "sum_modified s' + countStatus modified fcs = sum_modified s + countStatus modified fcs'"
            using ih(3) f by (cases st) (simp_all add: countStatus_snoc bump_def)
          have 4: "sum_deleted s' + countStatus deleted fcs = sum_deleted s + countStatus deleted fcs'"
            using ih(4) f by (cases st) (simp_all add: countStatus_snoc bump_def)
          from 1 2 3 4 show ?thesis by blast
        qed
      qed
    qed
  qed
qed

lemma getChangedLines_name_status:
  "getChangedLines (e\<lparr>git_name_status := x\<rparr>) p = getChangedLines e p"
  by (simp add: getChangedLines_def)

lemma locateAffectedBlocks_name_status:
  "locateAffectedBlocks (e\<lparr>git_name_status := x\<rparr>) filePath chLines
     = locateAffectedBlocks e filePath chLines"
  by (simp add: locateAffectedBlocks_def)

lemma analyzeFileChange_name_status:
  "analyzeFileChange (e\<lparr>git_name_status := x\<rparr>) p status absolutePath
     = analyzeFileChange e p status absolutePath"
  unfolding analyzeFileChange_def getChangedLines_name_status locateAffectedBlocks_name_status ..

lemma stagedLoop_name_status:
  "stagedLoop (e\<lparr>git_name_status := x\<rparr>) entries st = stagedLoop e entries st"
proof (induction entries arbitrary: st)
  case Nil
  show ?case by simp
next
  case (Cons en entries)
  obtain op status where en: "en = (op, status)" by (cases en)
  obtain fcs s where st: "st = (fcs, s)" by (cases st)
  show ?case
  proof (cases op)
    case None
    with en st show ?thesis by simp
  next
    case (Some p)
    have 1: "isSourceFile (e\<lparr>git_name_status := x\<rparr>) p = isSourceFile e p"
      by (simp add: isSourceFile_def)
    have 2: "analyzeFileChange (e\<lparr>git_name_status := x\<rparr>) p status
               (path_join (e\<lparr>git_name_status := x\<rparr>) (rootPath (e\<lparr>git_name_status := x\<rparr>)) p)
             = analyzeFileChange e p status (path_join e (rootPath e) p)"
      by (simp add: analyzeFileChange_name_status)
    show ?thesis
      unfolding en st Some stagedLoop.simps 1 2 Cons.IH ..
  qed
qed

lemma analyzeStagedChanges_entries:
  assumes "git_name_status e = Inr out" and "git_name_status e' = Inr out'"
      and "stagedEntries (split (trim out') newline) = stagedEntries (split (trim out) newline)"
      and "e' = e\<lparr>git_name_status := Inr out'\<rparr>"
  shows "analyzeStagedChanges e' = analyzeStagedChanges e"
proof -
  have "getStagedFiles e' = getStagedFiles e"
    using getStagedFiles_lines[OF assms(1)] getStagedFiles_lines[OF assms(2)] assms(3) by simp
  then have "getStagedFiles (e\<lparr>git_name_status := Inr out'\<rparr>) = getStagedFiles e"
    by (simp add: assms(4))
  then show ?thesis
    unfolding assms(4) analyzeStagedChanges_def stagedLoop_name_status by (rule arg_cong)
qed

text \<open>
  C10: with \<open>out\<close> the output of \<^verbatim>\<open>git diff --cached --name-status\<close>, the staged files are the
  entries of the lines whose status field is A, M or D: a line with any other status
  (\<^verbatim>\<open>R100\<close>, \<^verbatim>\<open>C75\<close>, ...) raises nothing and adds no entry. Every file change of a
  successful analysis has the path of a line with status A, M or D, the total is the
  number of file changes, and each summary count is the number of file changes with that
  status; so an entry with another status gives no file change and counts nowhere. And
  the analysis, its result or its error, depends on the lines with status A, M or D only:
  it is the same for every output with the same such lines, so the same as without the
  lines of another status.
\<close>

theorem other_status_entries_are_dropped:
  assumes "git_name_status e = Inr out"
  shows "getStagedFiles e = Inr (stagedEntries (filter isAMD (split (trim out) newline)))
     \<and> (\<forall>da. analyzeStagedChanges e = Inr da \<longrightarrow>
          (\<forall>fc \<in> set (fileChanges da). \<exists>line \<in> set (split (trim out) newline).
              isAMD line \<and> pathField line = Some (fc_relativePath fc))
          \<and> totalFiles da = length (fileChanges da)
          \<and> sum_added (summary da) = countStatus added (fileChanges da)
          \<and> sum_modified (summary da) = countStatus modified (fileChanges da)
          \<and> sum_deleted (summary da) = countStatus deleted (fileChanges da))
     \<and> (\<forall>out'. filter isAMD (split (trim out') newline) = filter isAMD (split (trim out) newline) \<longrightarrow>
          analyzeStagedChanges (e\<lparr>git_name_status := Inr out'\<rparr>) = analyzeStagedChanges e)"
proof -
  let ?ls = "split (trim out) newline"
  have g: "getStagedFiles e = Inr (stagedEntries ?ls)"
    by (rule getStagedFiles_lines[OF assms])
  have first: "getStagedFiles e = Inr (stagedEntries (filter isAMD ?ls))"
    using g by (simp add: stagedEntries_filter)
  have second: "(\<forall>fc \<in> set (fileChanges da). \<exists>line \<in> set ?ls.
              isAMD line \<and> pathField line = Some (fc_relativePath fc))
          \<and> totalFiles da = length (fileChanges da)
          \<and> sum_added (summary da) = countStatus added (fileChanges da)
          \<and> sum_modified (summary da) = countStatus modified (fileChanges da)
          \<and> sum_deleted (summary da) = countStatus deleted (fileChanges da)"
    if ok: "analyzeStagedChanges e = Inr da" for da
  proof (cases "stagedEntries ?ls = []")
    case True
    with ok g show ?thesis by (auto simp: analyzeStagedChanges_def countStatus_def)
  next
    case False
    with ok g obtain fcs s where
      run: "stagedLoop e (stagedEntries ?ls) ([], \<lparr>sum_added = 0, sum_modified = 0, sum_deleted = 0\<rparr>) = Inr (fcs, s)"
      and da: "da = \<lparr>totalFiles = length fcs, fileChanges = fcs, summary = s\<rparr>"
      by (auto simp: analyzeStagedChanges_def split: sum.splits prod.splits)
    from stagedLoop_result[OF run] have
      o: "\<forall>fc \<in> set fcs. \<exists>st. (Some (fc_relativePath fc), st) \<in> set (stagedEntries ?ls)"
      and c: "sum_added s = countStatus added fcs" "sum_modified s = countStatus modified fcs"
        "sum_deleted s = countStatus deleted fcs"
      by (simp_all add: countStatus_def)
    have "\<forall>fc \<in> set fcs. \<exists>line \<in> set ?ls. isAMD line \<and> pathField line = Some (fc_relativePath fc)"
      using o stagedEntries_origin by blast
    with c da show ?thesis by simp
  qed
  have third: "analyzeStagedChanges (e\<lparr>git_name_status := Inr out'\<rparr>) = analyzeStagedChanges e"
    if same: "filter isAMD (split (trim out') newline) = filter isAMD ?ls" for out'
  proof -
    have "stagedEntries (split (trim out') newline) = stagedEntries ?ls"
      using same stagedEntries_filter[of "split (trim out') newline"] stagedEntries_filter[of ?ls]
      by simp
    from analyzeStagedChanges_entries[OF assms _ this] show ?thesis by simp
  qed
  from first second third show ?thesis by blast
qed

theorem other_status_entries_are_dropped_witness:
  "getStagedFiles sampleEnv = Inr [(Some ''src/a.ts'', modified)]
   \<and> split (trim sampleNameStatus) newline =
       [''R100'' @ [tab] @ ''src/o.ts'' @ [tab] @ ''src/n.ts'',
        ''C75'' @ [tab] @ ''src/b.ts'' @ [tab] @ ''src/d.ts'', ''M'' @ [tab] @ ''src/a.ts'']
   \<and> \<not> isAMD (''R100'' @ [tab] @ ''src/o.ts'' @ [tab] @ ''src/n.ts'')
   \<and> \<not> isAMD (''C75'' @ [tab] @ ''src/b.ts'' @ [tab] @ ''src/d.ts'')
   \<and> isAMD (''M'' @ [tab] @ ''src/a.ts'')
   \<and> pathField (''M'' @ [tab] @ ''src/a.ts'') = Some ''src/a.ts''
   \<and> analyzeStagedChanges sampleEnv = Inr sampleAnalysis
   \<and> map fc_relativePath (fileChanges sampleAnalysis) = [''src/a.ts'']
   \<and> totalFiles sampleAnalysis = 1
   \<and> summary sampleAnalysis = \<lparr>sum_added = 0, sum_modified = 1, sum_deleted = 0\<rparr>
   \<and> split (trim sampleNameStatusKept) newline = [''M'' @ [tab] @ ''src/a.ts'']
   \<and> analyzeStagedChanges (sampleEnv\<lparr>git_name_status := Inr sampleNameStatusKept\<rparr>)
       = Inr sampleAnalysis"
proof -
  have h: "git_name_status sampleEnv = Inr sampleNameStatus" by (simp add: sampleEnv_def)
  have ls: "split (trim sampleNameStatus) newline =
       [''R100'' @ [tab] @ ''src/o.ts'' @ [tab] @ ''src/n.ts'',
        ''C75'' @ [tab] @ ''src/b.ts'' @ [tab] @ ''src/d.ts'', ''M'' @ [tab] @ ''src/a.ts'']"
    by code_simp
  have lk: "split (trim sampleNameStatusKept) newline = [''M'' @ [tab] @ ''src/a.ts'']"
    by code_simp
  have f: "stagedEntries (filter isAMD
       [''R100'' @ [tab] @ ''src/o.ts'' @ [tab] @ ''src/n.ts'',
        ''C75'' @ [tab] @ ''src/b.ts'' @ [tab] @ ''src/d.ts'', ''M'' @ [tab] @ ''src/a.ts''])
       = [(Some ''src/a.ts'', modified)]"
    by code_simp
  have r: "\<not> isAMD (''R100'' @ [tab] @ ''src/o.ts'' @ [tab] @ ''src/n.ts'')"
    "\<not> isAMD (''C75'' @ [tab] @ ''src/b.ts'' @ [tab] @ ''src/d.ts'')"
    by code_simp+
  have m: "isAMD (''M'' @ [tab] @ ''src/a.ts'')" "pathField (''M'' @ [tab] @ ''src/a.ts'') = Some ''src/a.ts''"
    by code_simp+
  have a: "analyzeStagedChanges sampleEnv = Inr sampleAnalysis" by code_simp
  have s: "map fc_relativePath (fileChanges sampleAnalysis) = [''src/a.ts'']"
    "totalFiles sampleAnalysis = 1"
    "summary sampleAnalysis = \<lparr>sum_added = 0, sum_modified = 1, sum_deleted = 0\<rparr>"
    by (simp_all add: sampleAnalysis_def)
  have g: "getStagedFiles sampleEnv = Inr [(Some ''src/a.ts'', modified)]"
    using other_status_entries_are_dropped[OF h] unfolding ls f by simp
  have same: "filter isAMD (split (trim sampleNameStatusKept) newline)
      = filter isAMD (split (trim sampleNameStatus) newline)"
    unfolding ls lk using r m(1) by simp
  have k: "analyzeStagedChanges (sampleEnv\<lparr>git_name_status := Inr sampleNameStatusKept\<rparr>)
       = Inr sampleAnalysis"
    using other_status_entries_are_dropped[OF h] same a by simp
  from g ls r m a s lk k show ?thesis by blast
qed

end
